theory Spec2Isabelle
  imports Main "HOL-Library.Multiset"
begin

unbundle bit_operations_syntax

section \<open>Strings, runes and the range clause\<close>

text \<open>
  A Go string is a sequence of bytes: \<^typ>\<open>string\<close>, a list of 8-bit \<^typ>\<open>char\<close>.
  A rune is a code point; the runes a string yields are never negative, so they are
  natural numbers here. \<open>rune_of\<close> is the conversion \<open>rune(b)\<close> of one byte and
  \<open>byte_of\<close> the conversion \<open>byte(r)\<close>, which keeps the low eight bits.
\<close>

type_synonym rune = nat

abbreviation rune_of :: "char \<Rightarrow> rune" where
  "rune_of c \<equiv> of_char c"

abbreviation byte_of :: "rune \<Rightarrow> char" where
  "byte_of r \<equiv> char_of r"

definition RuneError :: rune where
  "RuneError = 0xFFFD"

text \<open>A continuation byte of UTF-8: \<open>locb <= b && b <= hicb\<close>.\<close>

definition isCont :: "char \<Rightarrow> bool" where
  "isCont b = (0x80 \<le> rune_of b \<and> rune_of b \<le> 0xBF)"

text \<open>
  \<open>decoderune\<close> is what the range clause calls on a string whose first byte is not
  ASCII. It returns the rune and the number of bytes it takes: a well-formed sequence of
  two, three or four bytes (not overlong, not a surrogate, at most U+10FFFF) gives its
  code point, anything else gives \<open>RuneError\<close> and the width 1.
\<close>

fun decoderune :: "string \<Rightarrow> rune \<times> nat" where
  "decoderune [] = (RuneError, 1)"
| "decoderune (b0 # rest) =
     (let c0 = rune_of b0 in
      if 0xC0 \<le> c0 \<and> c0 < 0xE0 then
        (case rest of
           b1 # _ \<Rightarrow>
             if isCont b1 then
               (let r = push_bit 6 (c0 AND 0x1F) OR (rune_of b1 AND 0x3F) in
                if 0x7F < r then (r, 2) else (RuneError, 1))
             else (RuneError, 1)
         | _ \<Rightarrow> (RuneError, 1))
      else if 0xE0 \<le> c0 \<and> c0 < 0xF0 then
        (case rest of
           b1 # b2 # _ \<Rightarrow>
             if isCont b1 \<and> isCont b2 then
               (let r = push_bit 12 (c0 AND 0x0F) OR push_bit 6 (rune_of b1 AND 0x3F)
                          OR (rune_of b2 AND 0x3F) in
                if 0x7FF < r \<and> \<not> (0xD800 \<le> r \<and> r \<le> 0xDFFF) then (r, 3)
                else (RuneError, 1))
             else (RuneError, 1)
         | _ \<Rightarrow> (RuneError, 1))
      else if 0xF0 \<le> c0 \<and> c0 < 0xF8 then
        (case rest of
           b1 # b2 # b3 # _ \<Rightarrow>
             if isCont b1 \<and> isCont b2 \<and> isCont b3 then
               (let r = push_bit 18 (c0 AND 0x07) OR push_bit 12 (rune_of b1 AND 0x3F)
                          OR push_bit 6 (rune_of b2 AND 0x3F) OR (rune_of b3 AND 0x3F) in
                if 0xFFFF < r \<and> r \<le> 0x10FFFF then (r, 4) else (RuneError, 1))
             else (RuneError, 1)
         | _ \<Rightarrow> (RuneError, 1))
      else (RuneError, 1))"

text \<open>
  \<open>for _, char := range s\<close>: a byte below \<open>0x80\<close> is its own rune, any other byte
  starts a call of \<open>decoderune\<close>. \<open>rangeString s\<close> is the list of the runes the loop
  visits, in order.
\<close>

fun rangeString :: "string \<Rightarrow> rune list" where
  "rangeString [] = []"
| "rangeString (b # bs) =
     (if rune_of b < 0x80 then rune_of b # rangeString bs
      else fst (decoderune (b # bs)) # rangeString (drop (snd (decoderune (b # bs)) - 1) bs))"

text \<open>
  \<open>strings.Builder.WriteRune\<close> appends the UTF-8 encoding of a rune
  (\<open>utf8.AppendRune\<close>): one byte for ASCII, the encoding of \<open>RuneError\<close> for a
  surrogate or a value past U+10FFFF.
\<close>

definition WriteRune :: "string \<Rightarrow> rune \<Rightarrow> string" where
  "WriteRune p r =
     (if r \<le> 0x7F then p @ [byte_of r]
      else if r \<le> 0x7FF then
        p @ [byte_of (0xC0 OR drop_bit 6 r), byte_of (0x80 OR (r AND 0x3F))]
      else if 0x10FFFF < r \<or> (0xD800 \<le> r \<and> r \<le> 0xDFFF) then
        p @ [byte_of 0xEF, byte_of 0xBF, byte_of 0xBD]
      else if r \<le> 0xFFFF then
        p @ [byte_of (0xE0 OR drop_bit 12 r), byte_of (0x80 OR (drop_bit 6 r AND 0x3F)),
             byte_of (0x80 OR (r AND 0x3F))]
      else
        p @ [byte_of (0xF0 OR drop_bit 18 r), byte_of (0x80 OR (drop_bit 12 r AND 0x3F)),
             byte_of (0x80 OR (drop_bit 6 r AND 0x3F)), byte_of (0x80 OR (r AND 0x3F))])"

section \<open>sanitizeFilename\<close>

text \<open>The test \<open>isValidChar\<close> of the loop body, on one rune.\<close>

definition isValidChar :: "rune \<Rightarrow> bool" where
  "isValidChar char =
     ((rune_of CHR ''a'' \<le> char \<and> char \<le> rune_of CHR ''z'') \<or>
      (rune_of CHR ''A'' \<le> char \<and> char \<le> rune_of CHR ''Z'') \<or>
      (rune_of CHR ''0'' \<le> char \<and> char \<le> rune_of CHR ''9'') \<or>
      char = rune_of CHR '' '' \<or> char = rune_of CHR ''-'' \<or> char = rune_of CHR ''_'')"

text \<open>
  The first loop: \<open>sanitized\<close> is the builder, the first argument the runes still to
  visit.
\<close>

fun sanitizeLoop :: "rune list \<Rightarrow> string \<Rightarrow> string" where
  "sanitizeLoop [] sanitized = sanitized"
| "sanitizeLoop (char # rest) sanitized =
     sanitizeLoop rest
       (if isValidChar char then WriteRune sanitized char
        else WriteRune sanitized (rune_of CHR ''_''))"

text \<open>
  The character class \<open>[_\s]\<close> of the pattern: in Go's regular expressions \<open>\s\<close> is
  tab, line feed, form feed, carriage return and space. All of them are ASCII, so the
  class is a set of bytes.
\<close>

definition spaceUnderscoreClass :: "char \<Rightarrow> bool" where
  "spaceUnderscoreClass c =
     (c = CHR ''_'' \<or> c = CHR 0x09 \<or> c = CHR 0x0A \<or> c = CHR 0x0C \<or> c = CHR 0x0D \<or>
      c = CHR '' '')"

text \<open>
  \<open>ReplaceAllString\<close> for a pattern \<open>[class]+\<close> and a replacement without \<open>$\<close>:
  the matches are the maximal runs of bytes of the class, found from the left; each is
  replaced, every other byte is copied.
\<close>

function ReplaceAllString :: "(char \<Rightarrow> bool) \<Rightarrow> string \<Rightarrow> string \<Rightarrow> string" where
  "ReplaceAllString cls [] repl = []"
| "ReplaceAllString cls (c # cs) repl =
     (if cls c then repl @ ReplaceAllString cls (dropWhile cls cs) repl
      else c # ReplaceAllString cls cs repl)"
  by pat_completeness auto
termination
  by (relation "measure (\<lambda>(cls, s, repl). length s)")
     (auto simp: length_dropWhile_le less_Suc_eq_le)

text \<open>
  \<open>strings.Trim(s, "_")\<close>: for a cutset of one ASCII byte the library trims the byte
  from the right, then from the left.
\<close>

fun trimLeftByte :: "string \<Rightarrow> char \<Rightarrow> string" where
  "trimLeftByte [] c = []"
| "trimLeftByte (x # xs) c = (if x = c then trimLeftByte xs c else x # xs)"

function trimRightByte :: "string \<Rightarrow> char \<Rightarrow> string" where
  "trimRightByte s c = (if s \<noteq> [] \<and> last s = c then trimRightByte (butlast s) c else s)"
  by pat_completeness auto
termination
  by (relation "measure (\<lambda>(s, c). length s)") (auto simp: less_Suc_eq_le)

declare trimRightByte.simps [simp del]

definition Trim :: "string \<Rightarrow> char \<Rightarrow> string" where
  "Trim s c = trimLeftByte (trimRightByte s c) c"

definition sanitizeFilename :: "string \<Rightarrow> string" where
  "sanitizeFilename gameName =
     (let sanitized = sanitizeLoop (rangeString gameName) [];
          cleaned = ReplaceAllString spaceUnderscoreClass sanitized ''_'';
          cleaned = Trim cleaned CHR ''_''
      in cleaned)"

text \<open>A byte that the loop keeps: \<open>isValidChar\<close> on its rune.\<close>

definition validByte :: "char \<Rightarrow> bool" where
  "validByte c = isValidChar (rune_of c)"

text \<open>
  No two neighbours of a list both satisfy \<open>P\<close>: how the output of the collapse
  looks, for the class of the pattern.
\<close>

fun isolated :: "('a \<Rightarrow> bool) \<Rightarrow> 'a list \<Rightarrow> bool" where
  "isolated P [] = True"
| "isolated P [x] = True"
| "isolated P (x # y # zs) = (\<not> (P x \<and> P y) \<and> isolated P (y # zs))"


subsection \<open>The alphabet of a sanitized key\<close>

text \<open>
  The characters a key may hold, as bytes: the ASCII letters and digits, space, hyphen
  and underscore.
\<close>

definition isLetter :: "char \<Rightarrow> bool" where
  "isLetter c =
     ((rune_of CHR ''a'' \<le> rune_of c \<and> rune_of c \<le> rune_of CHR ''z'') \<or>
      (rune_of CHR ''A'' \<le> rune_of c \<and> rune_of c \<le> rune_of CHR ''Z''))"

definition isDigit :: "char \<Rightarrow> bool" where
  "isDigit c = (rune_of CHR ''0'' \<le> rune_of c \<and> rune_of c \<le> rune_of CHR ''9'')"

definition keyChar :: "char \<Rightarrow> bool" where
  "keyChar c = (isLetter c \<or> isDigit c \<or> c = CHR '' '' \<or> c = CHR ''-'' \<or> c = CHR ''_'')"

definition spaceOrUnderscore :: "char \<Rightarrow> bool" where
  "spaceOrUnderscore c = (c = CHR '' '' \<or> c = CHR ''_'')"


subsection \<open>The algorithm of the specification\<close>

text \<open>
  The specification's algorithm, in its own words and on the characters (code points)
  of the name: replace every character outside letters, digits, space, hyphen and
  underscore with an underscore; collapse every maximal run of spaces and underscores
  into one underscore; strip leading and trailing underscores. Letters and digits are
  the ASCII ones.
\<close>

definition spec_space :: rune where "spec_space = rune_of CHR '' ''"
definition spec_hyphen :: rune where "spec_hyphen = rune_of CHR ''-''"
definition spec_underscore :: rune where "spec_underscore = rune_of CHR ''_''"

definition spec_letter :: "rune \<Rightarrow> bool" where
  "spec_letter r =
     ((rune_of CHR ''A'' \<le> r \<and> r \<le> rune_of CHR ''Z'') \<or>
      (rune_of CHR ''a'' \<le> r \<and> r \<le> rune_of CHR ''z''))"

definition spec_digit :: "rune \<Rightarrow> bool" where
  "spec_digit r = (rune_of CHR ''0'' \<le> r \<and> r \<le> rune_of CHR ''9'')"

definition spec_replace :: "rune \<Rightarrow> rune" where
  "spec_replace r =
     (if spec_letter r \<or> spec_digit r \<or> r = spec_space \<or> r = spec_hyphen \<or>
         r = spec_underscore
      then r else spec_underscore)"

definition spec_sep :: "rune \<Rightarrow> bool" where
  "spec_sep r = (r = spec_space \<or> r = spec_underscore)"

function spec_collapse :: "rune list \<Rightarrow> rune list" where
  "spec_collapse [] = []"
| "spec_collapse (r # rs) =
     (if spec_sep r then spec_underscore # spec_collapse (dropWhile spec_sep rs)
      else r # spec_collapse rs)"
  by pat_completeness auto
termination
  by (relation "measure length") (auto simp: length_dropWhile_le less_Suc_eq_le)

definition spec_strip :: "rune list \<Rightarrow> rune list" where
  "spec_strip rs =
     rev (dropWhile (\<lambda>r. r = spec_underscore)
       (rev (dropWhile (\<lambda>r. r = spec_underscore) rs)))"

definition spec_sanitize :: "rune list \<Rightarrow> rune list" where
  "spec_sanitize rs = spec_strip (spec_collapse (map spec_replace rs))"


subsection \<open>The first loop\<close>

lemma isValidChar_ascii: "isValidChar r \<Longrightarrow> r < 0x80"
  by (auto simp: isValidChar_def)

lemma decoderune_not_ascii: "0x80 \<le> fst (decoderune s)"
  by (cases s) (auto simp: RuneError_def Let_def split: list.splits)

lemma decoderune_invalid: "\<not> isValidChar (fst (decoderune s))"
  using decoderune_not_ascii [of s] isValidChar_ascii [of "fst (decoderune s)"] by auto

lemma WriteRune_ascii: "r < 0x80 \<Longrightarrow> WriteRune p r = p @ [byte_of r]"
  by (simp add: WriteRune_def)

lemma sanitizeLoop_map:
  "sanitizeLoop rs acc =
     acc @ map (\<lambda>r. byte_of (if isValidChar r then r else rune_of CHR ''_'')) rs"
proof (induction rs arbitrary: acc)
  case Nil
  show ?case by simp
next
  case (Cons r rs)
  show ?case
  proof (cases "isValidChar r")
    case True
    then have "WriteRune acc r = acc @ [byte_of r]"
      by (simp add: WriteRune_ascii isValidChar_ascii)
    with True Cons show ?thesis by simp
  next
    case False
    have "WriteRune acc (rune_of CHR ''_'') = acc @ [byte_of (rune_of CHR ''_'')]"
      by (rule WriteRune_ascii) simp
    with False Cons show ?thesis by simp
  qed
qed

lemma rangeString_ascii:
  "\<forall>c \<in> set s. rune_of c < 0x80 \<Longrightarrow> rangeString s = map rune_of s"
  by (induction s) auto

lemma validByte_underscore: "validByte CHR ''_''"
  by (simp add: validByte_def isValidChar_def)

lemma sanitizeLoop_valid: "\<forall>c \<in> set (sanitizeLoop rs []). validByte c"
  by (auto simp: sanitizeLoop_map validByte_def isValidChar_ascii isValidChar_def)


lemma ReplaceAllString_set:
  "set (ReplaceAllString cls xs repl) \<subseteq> set repl \<union> {c \<in> set xs. \<not> cls c}"
proof (induction cls xs repl rule: ReplaceAllString.induct)
  case (1 cls repl)
  show ?case by simp
next
  case (2 cls c cs repl)
  show ?case
  proof (cases "cls c")
    case True
    have "set (dropWhile cls cs) \<subseteq> set cs"
      by (auto dest: set_dropWhileD)
    with 2(1) [OF True] True show ?thesis by auto
  next
    case False
    with 2(2) [OF False] show ?thesis by auto
  qed
qed

lemma ReplaceAllString_head:
  "xs \<noteq> [] \<Longrightarrow> \<not> cls (hd xs) \<Longrightarrow>
     ReplaceAllString cls xs repl = hd xs # ReplaceAllString cls (tl xs) repl"
  by (cases xs) auto

lemma isolated_Cons: "isolated P (x # xs) = ((xs \<noteq> [] \<longrightarrow> \<not> (P x \<and> P (hd xs))) \<and> isolated P xs)"
  by (cases xs) auto

lemma ReplaceAllString_isolated: "isolated cls (ReplaceAllString cls xs [u])"
proof (induction cls xs "[u]" rule: ReplaceAllString.induct)
  case (1 cls)
  show ?case by simp
next
  case (2 cls c cs)
  show ?case
  proof (cases "cls c")
    case True
    let ?ys = "dropWhile cls cs"
    have tail: "isolated cls (ReplaceAllString cls ?ys [u])"
      using 2(1) [OF True] .
    show ?thesis
    proof (cases "?ys = []")
      case True
      then have "ReplaceAllString cls (c # cs) [u] = [u]"
        using \<open>cls c\<close> by (simp del: dropWhile_eq_Nil_conv)
      then show ?thesis by simp
    next
      case False
      then have "\<not> cls (hd ?ys)" by (rule hd_dropWhile)
      with False have "ReplaceAllString cls ?ys [u] = hd ?ys # ReplaceAllString cls (tl ?ys) [u]"
        by (simp add: ReplaceAllString_head)
      with tail \<open>\<not> cls (hd ?ys)\<close> \<open>cls c\<close> show ?thesis
        by (simp add: isolated_Cons)
    qed
  next
    case False
    with 2(2) [OF False] show ?thesis by (simp add: isolated_Cons)
  qed
qed

lemma ReplaceAllString_id:
  "isolated cls xs \<Longrightarrow> \<forall>c \<in> set xs. cls c \<longrightarrow> c = u \<Longrightarrow> ReplaceAllString cls xs [u] = xs"
proof (induction cls xs "[u]" rule: ReplaceAllString.induct)
  case (1 cls)
  show ?case by simp
next
  case (2 cls c cs)
  from 2(3) have iso: "isolated cls cs" and nxt: "cs \<noteq> [] \<longrightarrow> \<not> (cls c \<and> cls (hd cs))"
    by (simp_all add: isolated_Cons)
  show ?case
  proof (cases "cls c")
    case True
    with nxt have "dropWhile cls cs = cs" by (cases cs) auto
    with 2(1) [OF True] iso 2(4) True show ?thesis by simp
  next
    case False
    with 2(2) [OF False] iso 2(4) show ?thesis by simp
  qed
qed

lemma trimLeftByte_dropWhile: "trimLeftByte xs c = dropWhile (\<lambda>x. x = c) xs"
  by (induction xs) auto

lemma trimRightByte_dropWhile: "trimRightByte s c = rev (dropWhile (\<lambda>x. x = c) (rev s))"
proof (induction s c rule: trimRightByte.induct)
  case (1 s c)
  show ?case
  proof (cases "s \<noteq> [] \<and> last s = c")
    case True
    then have s: "s = butlast s @ [c]" by (metis append_butlast_last_id)
    have "trimRightByte s c = trimRightByte (butlast s) c"
      using True by (subst trimRightByte.simps) simp
    also have "\<dots> = rev (dropWhile (\<lambda>x. x = c) (rev (butlast s)))"
      using 1 True by simp
    also have "\<dots> = rev (dropWhile (\<lambda>x. x = c) (rev s))"
      by (subst (2) s) simp
    finally show ?thesis .
  next
    case False
    then have "trimRightByte s c = s" by (subst trimRightByte.simps) auto
    moreover from False have "dropWhile (\<lambda>x. x = c) (rev s) = rev s"
      by (cases s rule: rev_cases) auto
    ultimately show ?thesis by simp
  qed
qed

lemma Trim_dropWhile:
  "Trim s c = dropWhile (\<lambda>x. x = c) (rev (dropWhile (\<lambda>x. x = c) (rev s)))"
  by (simp add: Trim_def trimLeftByte_dropWhile trimRightByte_dropWhile)

lemma Trim_sublist: "\<exists>pre post. s = pre @ Trim s c @ post"
proof -
  let ?Q = "\<lambda>x. x = c"
  let ?m = "rev (dropWhile ?Q (rev s))"
  have "rev s = takeWhile ?Q (rev s) @ dropWhile ?Q (rev s)"
    by simp
  then have "rev (rev s) = rev (takeWhile ?Q (rev s) @ dropWhile ?Q (rev s))"
    by (rule arg_cong)
  then have "s = ?m @ rev (takeWhile ?Q (rev s))"
    by (simp only: rev_append rev_rev_ident)
  moreover have "?m = takeWhile ?Q ?m @ Trim s c"
    by (simp add: Trim_dropWhile)
  ultimately have "s = (takeWhile ?Q ?m @ Trim s c) @ rev (takeWhile ?Q (rev s))"
    by (rule back_subst [where P = "\<lambda>m. s = m @ rev (takeWhile ?Q (rev s))"])
  then have "s = takeWhile ?Q ?m @ Trim s c @ rev (takeWhile ?Q (rev s))"
    by simp
  then show ?thesis by blast
qed

lemma Trim_hd: "Trim s c \<noteq> [] \<Longrightarrow> hd (Trim s c) \<noteq> c"
  unfolding Trim_dropWhile by (drule hd_dropWhile) simp

lemma dropWhile_last: "dropWhile P xs \<noteq> [] \<Longrightarrow> last (dropWhile P xs) = last xs"
  by (induction xs) (auto split: if_splits)

lemma Trim_last:
  assumes "Trim s c \<noteq> []"
  shows "last (Trim s c) \<noteq> c"
proof -
  let ?Q = "\<lambda>x. x = c"
  let ?m = "rev (dropWhile ?Q (rev s))"
  from assms have ne: "dropWhile ?Q ?m \<noteq> []" by (simp add: Trim_dropWhile)
  then have "last (Trim s c) = last ?m"
    unfolding Trim_dropWhile by (rule dropWhile_last)
  moreover have d: "dropWhile ?Q (rev s) \<noteq> []"
  proof
    assume "dropWhile ?Q (rev s) = []"
    then have "dropWhile ?Q ?m = []" by (simp del: dropWhile_eq_Nil_conv)
    with ne show False by contradiction
  qed
  then have "last ?m = hd (dropWhile ?Q (rev s))" by (simp add: last_rev)
  moreover from d have "\<not> ?Q (hd (dropWhile ?Q (rev s)))" by (rule hd_dropWhile)
  ultimately show ?thesis by simp
qed

lemma Trim_id:
  assumes "s \<noteq> []" "hd s \<noteq> c" "last s \<noteq> c"
  shows "Trim s c = s"
proof -
  from assms(1,3) have "dropWhile (\<lambda>x. x = c) (rev s) = rev s"
    by (cases s rule: rev_cases) auto
  moreover from assms(1,2) have "dropWhile (\<lambda>x. x = c) s = s"
    by (cases s) auto
  ultimately show ?thesis by (simp add: Trim_dropWhile)
qed

lemma isolated_append: "isolated P (xs @ ys) \<Longrightarrow> isolated P xs \<and> isolated P ys"
  by (induction P xs rule: isolated.induct) (auto simp: isolated_Cons)

lemma isolated_nth:
  "isolated P xs \<Longrightarrow> Suc i < length xs \<Longrightarrow> \<not> (P (xs ! i) \<and> P (xs ! Suc i))"
proof (induction P xs arbitrary: i rule: isolated.induct)
  case (3 P x y zs)
  then show ?case by (cases i) auto
qed simp_all

lemma validByte_keyChar: "validByte c = keyChar c"
proof -
  have "(rune_of c = rune_of CHR '' '') = (c = CHR '' '')"
       "(rune_of c = rune_of CHR ''-'') = (c = CHR ''-'')"
       "(rune_of c = rune_of CHR ''_'') = (c = CHR ''_'')"
    by (rule of_char_eq_iff)+
  then show ?thesis
    unfolding validByte_def isValidChar_def keyChar_def isLetter_def isDigit_def by simp
qed

lemma validByte_ascii: "validByte c \<Longrightarrow> rune_of c < 0x80"
  by (simp add: validByte_def isValidChar_ascii)

lemma validByte_class:
  "validByte c \<Longrightarrow> spaceUnderscoreClass c = spaceOrUnderscore c"
  by (auto simp: validByte_keyChar keyChar_def isLetter_def isDigit_def
        spaceUnderscoreClass_def spaceOrUnderscore_def)

lemma spaceOrUnderscore_class: "spaceOrUnderscore c \<Longrightarrow> spaceUnderscoreClass c"
  by (auto simp: spaceUnderscoreClass_def spaceOrUnderscore_def)

text \<open>The facts about the output every claim on the sanitizer rests on.\<close>

lemma sanitizeFilename_core:
  "(\<forall>c \<in> set (sanitizeFilename s). validByte c \<and> c \<noteq> CHR '' '') \<and>
   isolated spaceUnderscoreClass (sanitizeFilename s) \<and>
   (sanitizeFilename s \<noteq> [] \<longrightarrow>
      hd (sanitizeFilename s) \<noteq> CHR ''_'' \<and> last (sanitizeFilename s) \<noteq> CHR ''_'')"
proof -
  let ?p1 = "sanitizeLoop (rangeString s) []"
  let ?p2 = "ReplaceAllString spaceUnderscoreClass ?p1 ''_''"
  have out: "sanitizeFilename s = Trim ?p2 CHR ''_''"
    by (simp add: sanitizeFilename_def)
  obtain pre post where split: "?p2 = pre @ Trim ?p2 CHR ''_'' @ post"
    using Trim_sublist by blast
  have p2_set: "\<forall>c \<in> set ?p2. validByte c \<and> c \<noteq> CHR '' ''"
  proof
    fix c assume "c \<in> set ?p2"
    then have "c \<in> set ''_'' \<union> {c \<in> set ?p1. \<not> spaceUnderscoreClass c}"
      using ReplaceAllString_set by blast
    then show "validByte c \<and> c \<noteq> CHR '' ''"
      using sanitizeLoop_valid [of "rangeString s"]
      by (auto simp: validByte_underscore spaceUnderscoreClass_def)
  qed
  have "set (Trim ?p2 CHR ''_'') \<subseteq> set ?p2"
    by (subst (2) split) auto
  with p2_set have 1: "\<forall>c \<in> set (sanitizeFilename s). validByte c \<and> c \<noteq> CHR '' ''"
    unfolding out by blast
  have "isolated spaceUnderscoreClass ?p2"
    by (rule ReplaceAllString_isolated)
  then have "isolated spaceUnderscoreClass (pre @ Trim ?p2 CHR ''_'' @ post)"
    using split by simp
  then have 2: "isolated spaceUnderscoreClass (sanitizeFilename s)"
    unfolding out by (blast dest: isolated_append)
  have 3: "sanitizeFilename s \<noteq> [] \<longrightarrow>
      hd (sanitizeFilename s) \<noteq> CHR ''_'' \<and> last (sanitizeFilename s) \<noteq> CHR ''_''"
    unfolding out using Trim_hd Trim_last by blast
  from 1 2 3 show ?thesis by blast
qed

text \<open>
  Claim C1. For every input the output of \<open>sanitizeFilename\<close> holds only letters,
  digits, spaces, hyphens and underscores, neither starts nor ends with an underscore,
  and has no two neighbours that are each a space or an underscore. The function is a
  total HOL function, so it returns for every input and returns the same output for
  the same input.
\<close>

theorem sanitize_key_shape:
  "(\<forall>c \<in> set (sanitizeFilename s). keyChar c) \<and>
   (sanitizeFilename s \<noteq> [] \<longrightarrow>
      hd (sanitizeFilename s) \<noteq> CHR ''_'' \<and> last (sanitizeFilename s) \<noteq> CHR ''_'') \<and>
   (\<forall>i. Suc i < length (sanitizeFilename s) \<longrightarrow>
      \<not> (spaceOrUnderscore (sanitizeFilename s ! i) \<and>
         spaceOrUnderscore (sanitizeFilename s ! Suc i)))"
proof -
  note core = sanitizeFilename_core [of s]
  have "\<forall>c \<in> set (sanitizeFilename s). keyChar c"
    using core by (simp add: validByte_keyChar)
  moreover have "\<forall>i. Suc i < length (sanitizeFilename s) \<longrightarrow>
      \<not> (spaceOrUnderscore (sanitizeFilename s ! i) \<and>
         spaceOrUnderscore (sanitizeFilename s ! Suc i))"
  proof (intro allI impI)
    fix i assume "Suc i < length (sanitizeFilename s)"
    with core have "\<not> (spaceUnderscoreClass (sanitizeFilename s ! i) \<and>
         spaceUnderscoreClass (sanitizeFilename s ! Suc i))"
      by (blast dest: isolated_nth)
    then show "\<not> (spaceOrUnderscore (sanitizeFilename s ! i) \<and>
         spaceOrUnderscore (sanitizeFilename s ! Suc i))"
      by (blast dest: spaceOrUnderscore_class)
  qed
  ultimately show ?thesis using core by blast
qed

theorem sanitize_key_shape_witness:
  "sanitizeFilename ''A: b__c '' = ''A_b_c'' \<and>
   list_all keyChar (sanitizeFilename ''A: b__c '') \<and>
   hd (sanitizeFilename ''A: b__c '') \<noteq> CHR ''_'' \<and>
   last (sanitizeFilename ''A: b__c '') \<noteq> CHR ''_'' \<and>
   \<not> (spaceOrUnderscore (sanitizeFilename ''A: b__c '' ! 1) \<and>
      spaceOrUnderscore (sanitizeFilename ''A: b__c '' ! Suc 1))"
proof -
  have e: "sanitizeFilename ''A: b__c '' = ''A_b_c''" by code_simp
  have n: "sanitizeFilename ''A: b__c '' \<noteq> []" "Suc 1 < length (sanitizeFilename ''A: b__c '')"
    unfolding e by simp_all
  from sanitize_key_shape [of "''A: b__c ''"] n e show ?thesis
    by (simp only: list_all_iff) blast
qed

text \<open>
  Claim C10. The output of \<open>sanitizeFilename\<close> holds no space at all: a space is
  in the class of the pattern, so every space is part of a run that the collapse
  replaces by one underscore.
\<close>

theorem sanitize_no_space: "CHR '' '' \<notin> set (sanitizeFilename s)"
  using sanitizeFilename_core [of s] by blast

lemma sanitize_fixed:
  assumes valid: "\<forall>c \<in> set k. validByte c \<and> c \<noteq> CHR '' ''"
    and iso: "isolated spaceUnderscoreClass k"
    and ends: "k \<noteq> [] \<longrightarrow> hd k \<noteq> CHR ''_'' \<and> last k \<noteq> CHR ''_''"
  shows "sanitizeFilename k = k"
proof -
  from valid have "\<forall>c \<in> set k. rune_of c < 0x80"
    by (blast dest: validByte_ascii)
  then have "rangeString k = map rune_of k"
    by (rule rangeString_ascii)
  moreover have "map (\<lambda>r. byte_of (if isValidChar r then r else rune_of CHR ''_'')) (map rune_of k) = k"
    using valid by (simp add: validByte_def map_idI)
  ultimately have p1: "sanitizeLoop (rangeString k) [] = k"
    by (simp add: sanitizeLoop_map)
  have "\<forall>c \<in> set k. spaceUnderscoreClass c \<longrightarrow> c = CHR ''_''"
    using valid by (auto simp: validByte_class spaceOrUnderscore_def)
  with iso have p2: "ReplaceAllString spaceUnderscoreClass k ''_'' = k"
    by (rule ReplaceAllString_id)
  have p3: "Trim k CHR ''_'' = k"
  proof (cases "k = []")
    case True
    then show ?thesis by (simp add: Trim_dropWhile)
  next
    case False
    with ends show ?thesis by (simp add: Trim_id)
  qed
  show ?thesis by (simp add: sanitizeFilename_def p1 p2 p3)
qed

text \<open>
  Claim C9. Sanitizing a sanitized key gives the key back:
  \<open>sanitize (sanitize x) = sanitize x\<close> for every input.
\<close>

theorem sanitize_idempotent: "sanitizeFilename (sanitizeFilename x) = sanitizeFilename x"
  using sanitizeFilename_core [of x] by (intro sanitize_fixed) blast+

subsection \<open>Refinement of the specification's algorithm\<close>

lemma spec_replace_code:
  "spec_replace r = (if isValidChar r then r else rune_of CHR ''_'')"
  unfolding spec_replace_def spec_letter_def spec_digit_def spec_space_def spec_hyphen_def
    spec_underscore_def isValidChar_def
  by auto

lemma rune_of_underscore: "(rune_of c = spec_underscore) = (c = CHR ''_'')"
  unfolding spec_underscore_def by (rule of_char_eq_iff)

lemma rune_of_space: "(rune_of c = spec_space) = (c = CHR '' '')"
  unfolding spec_space_def by (rule of_char_eq_iff)

lemma spec_sep_byte: "spec_sep (rune_of c) = spaceOrUnderscore c"
  by (auto simp: spec_sep_def spaceOrUnderscore_def rune_of_underscore rune_of_space)

lemma phase1_refines:
  "map rune_of (sanitizeLoop (rangeString s) []) = map spec_replace (rangeString s)"
proof -
  have "rune_of (byte_of (spec_replace r)) = spec_replace r" for r
  proof -
    have "isValidChar (spec_replace r)"
      by (simp add: spec_replace_code) (simp add: isValidChar_def)
    then have "spec_replace r < 0x80" by (rule isValidChar_ascii)
    then show ?thesis by simp
  qed
  then show ?thesis
    by (simp add: sanitizeLoop_map spec_replace_code [symmetric] comp_def)
qed

lemma dropWhile_agree:
  assumes "\<forall>c \<in> set xs. P c = Q (f c)"
  shows "map f (dropWhile P xs) = dropWhile Q (map f xs)"
  using assms by (induction xs) auto

lemma collapse_refines:
  assumes "\<forall>c \<in> set xs. spaceUnderscoreClass c = spec_sep (rune_of c)"
  shows "map rune_of (ReplaceAllString spaceUnderscoreClass xs ''_'') =
           spec_collapse (map rune_of xs)"
  using assms
proof (induction xs rule: length_induct)
  case (1 xs)
  show ?case
  proof (cases xs)
    case Nil
    then show ?thesis by simp
  next
    case (Cons c cs)
    from 1(2) Cons have agree: "\<forall>c \<in> set cs. spaceUnderscoreClass c = spec_sep (rune_of c)"
      and c: "spaceUnderscoreClass c = spec_sep (rune_of c)" by simp_all
    show ?thesis
    proof (cases "spaceUnderscoreClass c")
      case True
      let ?ys = "dropWhile spaceUnderscoreClass cs"
      have "length ?ys < length xs"
        using Cons by (simp add: length_dropWhile_le less_Suc_eq_le)
      moreover have "\<forall>c \<in> set ?ys. spaceUnderscoreClass c = spec_sep (rune_of c)"
        using agree by (blast dest: set_dropWhileD)
      ultimately have "map rune_of (ReplaceAllString spaceUnderscoreClass ?ys ''_'') =
           spec_collapse (map rune_of ?ys)"
        using 1(1) by blast
      moreover have "map rune_of ?ys = dropWhile spec_sep (map rune_of cs)"
        using agree by (rule dropWhile_agree)
      ultimately show ?thesis
        using True c Cons by (simp add: spec_underscore_def)
    next
      case False
      have "map rune_of (ReplaceAllString spaceUnderscoreClass cs ''_'') =
           spec_collapse (map rune_of cs)"
        using 1(1) agree Cons by simp
      with False c Cons show ?thesis by simp
    qed
  qed
qed

lemma trim_commute:
  "dropWhile Q (rev (dropWhile Q (rev s))) = rev (dropWhile Q (rev (dropWhile Q s)))"
proof (cases "\<forall>x \<in> set s. Q x")
  case True
  then have "dropWhile Q s = []" and "dropWhile Q (rev s) = []" by simp_all
  then show ?thesis by (simp del: dropWhile_eq_Nil_conv)
next
  case False
  let ?a = "takeWhile Q s" and ?m = "dropWhile Q s"
  let ?b = "takeWhile Q (rev ?m)" and ?n = "dropWhile Q (rev ?m)"
  from False have m: "?m \<noteq> []" by simp
  then have hm: "\<not> Q (hd ?m)" by (rule hd_dropWhile)
  from m have "hd ?m \<in> set (rev ?m)" by simp
  with hm have n: "?n \<noteq> []" by auto
  then have hn: "\<not> Q (hd ?n)" by (rule hd_dropWhile)
  have "rev s = rev ?m @ rev ?a"
    by (metis rev_append takeWhile_dropWhile_id)
  also have "rev ?m = ?b @ ?n" by simp
  finally have "rev s = ?b @ ?n @ rev ?a" by simp
  then have "dropWhile Q (rev s) = dropWhile Q (?b @ ?n @ rev ?a)" by simp
  also have "\<dots> = dropWhile Q (?n @ rev ?a)"
    by (rule dropWhile_append2) (auto dest: set_takeWhileD)
  also have "\<dots> = ?n @ rev ?a"
    using n hn by (cases ?n) auto
  finally have "rev (dropWhile Q (rev s)) = ?a @ rev ?n" by simp
  then have "dropWhile Q (rev (dropWhile Q (rev s))) = dropWhile Q (?a @ rev ?n)" by simp
  also have "\<dots> = dropWhile Q (rev ?n)"
    by (rule dropWhile_append2) (auto dest: set_takeWhileD)
  also have "\<dots> = rev ?n"
  proof -
    have "last ?n = last (rev ?m)" using n by (rule dropWhile_last)
    also have "\<dots> = hd ?m" using m by (simp add: last_rev)
    finally have "\<not> Q (hd (rev ?n))" using hm n by (simp add: hd_rev)
    with n show ?thesis by (cases "rev ?n") auto
  qed
  finally show ?thesis .
qed

lemma trim_refines: "map rune_of (Trim xs CHR ''_'') = spec_strip (map rune_of xs)"
proof -
  let ?Q = "\<lambda>c. c = CHR ''_''" and ?R = "\<lambda>r. r = spec_underscore"
  have agree: "\<forall>c \<in> set ys. ?Q c = ?R (rune_of c)" for ys
    by (simp add: rune_of_underscore)
  have "Trim xs CHR ''_'' = rev (dropWhile ?Q (rev (dropWhile ?Q xs)))"
    by (simp only: Trim_dropWhile trim_commute)
  then have "map rune_of (Trim xs CHR ''_'') = rev (map rune_of (dropWhile ?Q (rev (dropWhile ?Q xs))))"
    by (simp add: rev_map)
  also have "map rune_of (dropWhile ?Q (rev (dropWhile ?Q xs))) =
      dropWhile ?R (map rune_of (rev (dropWhile ?Q xs)))"
    using agree by (rule dropWhile_agree)
  also have "map rune_of (rev (dropWhile ?Q xs)) = rev (map rune_of (dropWhile ?Q xs))"
    by (simp add: rev_map)
  also have "map rune_of (dropWhile ?Q xs) = dropWhile ?R (map rune_of xs)"
    using agree by (rule dropWhile_agree)
  finally show ?thesis by (simp add: spec_strip_def)
qed

text \<open>
  Claim C2. For every input, \<open>sanitizeFilename\<close> computes the specification's
  algorithm: the bytes of its output, read as characters, are the result of replacing,
  collapsing and stripping the characters of the input. In particular the name
  \<open>The Witcher 3: Wild Hunt\<close> becomes \<open>The_Witcher_3_Wild_Hunt\<close>.
\<close>

theorem sanitize_refines_spec:
  "map rune_of (sanitizeFilename s) = spec_sanitize (rangeString s) \<and>
   sanitizeFilename ''The Witcher 3: Wild Hunt'' = ''The_Witcher_3_Wild_Hunt''"
proof
  let ?p1 = "sanitizeLoop (rangeString s) []"
  have "\<forall>c \<in> set ?p1. spaceUnderscoreClass c = spec_sep (rune_of c)"
    using sanitizeLoop_valid [of "rangeString s"]
    by (simp add: validByte_class spec_sep_byte)
  then have "map rune_of (ReplaceAllString spaceUnderscoreClass ?p1 ''_'') =
      spec_collapse (map rune_of ?p1)"
    by (rule collapse_refines)
  then show "map rune_of (sanitizeFilename s) = spec_sanitize (rangeString s)"
    by (simp add: sanitizeFilename_def spec_sanitize_def trim_refines phase1_refines)
next
  show "sanitizeFilename ''The Witcher 3: Wild Hunt'' = ''The_Witcher_3_Wild_Hunt''"
    by code_simp
qed

section \<open>Errors, results and the environment\<close>

text \<open>
  The errors the program builds itself (\<open>fmt.Errorf\<close>) are constructors of their own;
  an error that the network, the operating system or a library returns is \<open>External\<close>
  with its message. \<open>ErrorWritingFile err\<close> is
  \<open>fmt.Errorf("error writing file: %v", err)\<close>.
\<close>

datatype error =
    EmptyGameName
  | HTTPError int
  | NoResultsFound
  | ErrorWritingFile error
  | External string

text \<open>
  \<open>SteamAPIResponse\<close> and \<open>GameResult\<close>. Go's \<open>int\<close> is \<^typ>\<open>int\<close>: the
  program never computes with an identifier, it only copies it. A nil \<open>Error\<close> is
  \<open>None\<close>, and a field a struct literal leaves out has its zero value.
\<close>

record SteamItem =
  ID :: int
  Name :: string

record SteamAPIResponse =
  Items :: "SteamItem list"

record GameResult =
  GameName :: string
  GameID :: int
  Success :: bool
  Error :: "error option"

record HTTPResponse =
  StatusCode :: int
  Body :: "error + string"

text \<open>
  The environment of one run. \<open>files\<close> maps the paths that exist to their content;
  \<open>read_error\<close> and \<open>write_error\<close> say for which paths \<open>os.ReadFile\<close> and
  \<open>os.WriteFile\<close> fail, and how; \<open>remote\<close> is what a GET of a URL returns: a
  network error, or a status code with the outcome of reading the body. \<open>calls\<close>
  records, in order, every call that leaves the program, and every call of the resolver
  \<open>findSteamGameID\<close>.
\<close>

datatype event =
    Call_findSteamGameID string
  | Call_Get string
  | Call_Stat string
  | Call_ReadFile string
  | Call_WriteFile string string

record world =
  files :: "string \<Rightarrow> string option"
  read_error :: "string \<Rightarrow> error option"
  write_error :: "string \<Rightarrow> error option"
  remote :: "string \<Rightarrow> error + HTTPResponse"
  calls :: "event list"

text \<open>
  Two library functions are parameters: \<open>json.Unmarshal\<close> into a
  \<open>SteamAPIResponse\<close>, and \<open>filepath.Join\<close> of two elements.
\<close>

record golib =
  json_Unmarshal :: "string \<Rightarrow> error + SteamAPIResponse"
  filepath_Join :: "string \<Rightarrow> string \<Rightarrow> string"

text \<open>
  The calls on the environment. \<open>os.Stat\<close> has no error exactly for the paths of
  \<open>files\<close>; a write that fails is taken to leave every file as it was; the client's
  \<open>Get\<close> returns within its timeout.
\<close>

definition os_Stat :: "string \<Rightarrow> world \<Rightarrow> error option \<times> world" where
  "os_Stat name w =
     ((case files w name of
         None \<Rightarrow> Some (External ''no such file or directory'')
       | Some _ \<Rightarrow> None),
      w\<lparr>calls := calls w @ [Call_Stat name]\<rparr>)"

definition os_ReadFile :: "string \<Rightarrow> world \<Rightarrow> (error + string) \<times> world" where
  "os_ReadFile name w =
     ((case files w name of
         None \<Rightarrow> Inl (External ''no such file or directory'')
       | Some content \<Rightarrow>
           (case read_error w name of Some err \<Rightarrow> Inl err | None \<Rightarrow> Inr content)),
      w\<lparr>calls := calls w @ [Call_ReadFile name]\<rparr>)"

definition os_WriteFile :: "string \<Rightarrow> string \<Rightarrow> world \<Rightarrow> error option \<times> world" where
  "os_WriteFile name data w =
     (case write_error w name of
        Some err \<Rightarrow> (Some err, w\<lparr>calls := calls w @ [Call_WriteFile name data]\<rparr>)
      | None \<Rightarrow>
          (None, w\<lparr>files := (files w)(name \<mapsto> data),
                    calls := calls w @ [Call_WriteFile name data]\<rparr>))"

definition http_Get :: "string \<Rightarrow> world \<Rightarrow> (error + HTTPResponse) \<times> world" where
  "http_Get url w = (remote w url, w\<lparr>calls := calls w @ [Call_Get url]\<rparr>)"

section \<open>Formatting and scanning an identifier\<close>

text \<open>\<open>fmt.Sprintf("%d", n)\<close>: the decimal digits of \<open>n\<close>, after a minus sign when negative.\<close>

function decimal :: "nat \<Rightarrow> string" where
  "decimal n = (if n < 10 then [byte_of (48 + n)] else decimal (n div 10) @ [byte_of (48 + n mod 10)])"
  by pat_completeness auto
termination
  by (relation "measure id") auto

declare decimal.simps [simp del]

definition Sprintf_d :: "int \<Rightarrow> string" where
  "Sprintf_d n = (if n < 0 then CHR ''-'' # decimal (nat (- n)) else decimal (nat n))"

text \<open>
  \<open>fmt.Sscanf(s, "%d", &n)\<close>. The scanner reads runes. It skips the spaces before the
  number (\<open>isSpace\<close> is the table of \<open>fmt\<close>), and stops with an error at a line feed;
  it takes one optional sign, then needs at least one decimal digit and takes all that
  follow; what follows the digits is not read. The token must fit 64 bits.
\<close>

definition isSpace :: "rune \<Rightarrow> bool" where
  "isSpace r =
     ((0x0009 \<le> r \<and> r \<le> 0x000d) \<or> r = 0x0020 \<or> r = 0x0085 \<or> r = 0x00a0 \<or>
      r = 0x1680 \<or> (0x2000 \<le> r \<and> r \<le> 0x200a) \<or> (0x2028 \<le> r \<and> r \<le> 0x2029) \<or>
      r = 0x202f \<or> r = 0x205f \<or> r = 0x3000)"

fun SkipSpace :: "rune list \<Rightarrow> error + rune list" where
  "SkipSpace [] = Inr []"
| "SkipSpace (r # rs) =
     (if r = rune_of CHR 0x0D \<and> (case rs of [] \<Rightarrow> False | n # _ \<Rightarrow> n = rune_of CHR 0x0A)
      then SkipSpace rs
      else if r = rune_of CHR 0x0A then Inl (External ''unexpected newline'')
      else if \<not> isSpace r then Inr (r # rs)
      else SkipSpace rs)"

definition isSign :: "rune \<Rightarrow> bool" where
  "isSign r = (r = rune_of CHR ''+'' \<or> r = rune_of CHR ''-'')"

definition isDecimalDigit :: "rune \<Rightarrow> bool" where
  "isDecimalDigit r = (rune_of CHR ''0'' \<le> r \<and> r \<le> rune_of CHR ''9'')"

text \<open>The value of a string of decimal digits, most significant first.\<close>

definition digitsValue :: "rune list \<Rightarrow> int" where
  "digitsValue ds = foldl (\<lambda>acc d. 10 * acc + int (d - rune_of CHR ''0'')) 0 ds"

definition scanInt :: "rune list \<Rightarrow> error + int" where
  "scanInt input =
     (case SkipSpace input of
        Inl err \<Rightarrow> Inl err
      | Inr [] \<Rightarrow> Inl (External ''unexpected EOF'')
      | Inr (r # rs) \<Rightarrow>
          (let negative = (r = rune_of CHR ''-'');
               rest = (if isSign r then rs else r # rs)
           in case rest of
                [] \<Rightarrow> Inl (External ''unexpected EOF'')
              | d # _ \<Rightarrow>
                  if \<not> isDecimalDigit d then Inl (External ''expected integer'')
                  else
                    (let magnitude = digitsValue (takeWhile isDecimalDigit rest) in
                     if negative then
                       (if magnitude \<le> 2 ^ 63 then Inr (- magnitude)
                        else Inl (External ''value out of range''))
                     else
                       (if magnitude < 2 ^ 63 then Inr magnitude
                        else Inl (External ''value out of range'')))))"

definition Sscanf_d :: "string \<Rightarrow> error + int" where
  "Sscanf_d str =
     (case SkipSpace (rangeString str) of
        Inl err \<Rightarrow> Inl err
      | Inr input \<Rightarrow> scanInt input)"

section \<open>The resolver client: findSteamGameID\<close>

definition steamAPIEndpoint :: string where
  "steamAPIEndpoint = ''https://store.steampowered.com/api/storesearch/''"

definition apiLanguage :: string where
  "apiLanguage = ''english''"

definition apiCountryCode :: string where
  "apiCountryCode = ''US''"

text \<open>
  \<open>url.QueryEscape\<close>: letters, digits, \<open>-\<close>, \<open>_\<close>, \<open>.\<close> and \<open>~\<close> stay, a space
  becomes \<open>+\<close>, every other byte becomes \<open>%XX\<close> in upper-case hexadecimal.
\<close>

definition upperhex :: "nat \<Rightarrow> char" where
  "upperhex n = ''0123456789ABCDEF'' ! (n mod 16)"

definition shouldEscape :: "char \<Rightarrow> bool" where
  "shouldEscape c =
     (\<not> (isLetter c \<or> isDigit c \<or> c = CHR ''-'' \<or> c = CHR ''_'' \<or> c = CHR ''.'' \<or>
         c = CHR ''~''))"

definition escapeByte :: "char \<Rightarrow> string" where
  "escapeByte c =
     (if \<not> shouldEscape c then [c]
      else if c = CHR '' '' then ''+''
      else [CHR ''%'', upperhex (rune_of c div 16), upperhex (rune_of c mod 16)])"

definition QueryEscape :: "string \<Rightarrow> string" where
  "QueryEscape s = concat (map escapeByte s)"

text \<open>
  The request URL. \<open>url.Values.Encode\<close> writes the parameters sorted by key:
  \<open>cc\<close>, \<open>l\<close>, \<open>term\<close>.
\<close>

definition requestURL :: "string \<Rightarrow> string" where
  "requestURL gameName =
     steamAPIEndpoint @ ''?'' @
       ''cc='' @ QueryEscape apiCountryCode @
       ''&l='' @ QueryEscape apiLanguage @
       ''&term='' @ QueryEscape gameName"

text \<open>
  \<open>findSteamGameID\<close> returns \<open>(int, error)\<close>; every error return carries the
  identifier 0, which no caller reads, so the result is a sum. The diagnostics that
  \<open>verbose\<close> adds on standard error are not part of the model.
\<close>

definition findSteamGameID :: "golib \<Rightarrow> string \<Rightarrow> bool \<Rightarrow> world \<Rightarrow> (error + int) \<times> world" where
  "findSteamGameID lib gameName verbose w0 =
     (let w = w0\<lparr>calls := calls w0 @ [Call_findSteamGameID gameName]\<rparr> in
      if gameName = [] then (Inl EmptyGameName, w)
      else
        (case http_Get (requestURL gameName) w of
           (Inl err, w1) \<Rightarrow> (Inl err, w1)
         | (Inr httpResponse, w1) \<Rightarrow>
             if StatusCode httpResponse \<noteq> 200
             then (Inl (HTTPError (StatusCode httpResponse)), w1)
             else
               (case Body httpResponse of
                  Inl err \<Rightarrow> (Inl err, w1)
                | Inr responseBody \<Rightarrow>
                    (case json_Unmarshal lib responseBody of
                       Inl err \<Rightarrow> (Inl err, w1)
                     | Inr apiResponse \<Rightarrow>
                         if length (Items apiResponse) > 0
                         then (Inr (ID (Items apiResponse ! 0)), w1)
                         else (Inl NoResultsFound, w1)))))"

section \<open>The item processor: processSingleGame\<close>

definition steamFilePath :: "golib \<Rightarrow> string \<Rightarrow> string \<Rightarrow> string" where
  "steamFilePath lib outputDirectory gameName =
     filepath_Join lib outputDirectory (sanitizeFilename gameName @ ''.steam'')"

definition processSingleGame ::
  "golib \<Rightarrow> string \<Rightarrow> string \<Rightarrow> bool \<Rightarrow> bool \<Rightarrow> world \<Rightarrow> GameResult \<times> world" where
  "processSingleGame lib gameName outputDirectory shouldSkipExisting verbose w =
     (let path = steamFilePath lib outputDirectory gameName;
          (existing, w1) =
            (if shouldSkipExisting then
               (case os_Stat path w of
                  (Some err, wa) \<Rightarrow> (None, wa)
                | (None, wa) \<Rightarrow>
                    (case os_ReadFile path wa of
                       (Inl err, wb) \<Rightarrow> (None, wb)
                     | (Inr existingFileContent, wb) \<Rightarrow>
                         (case Sscanf_d existingFileContent of
                            Inl err \<Rightarrow> (None, wb)
                          | Inr existingGameID \<Rightarrow> (Some existingGameID, wb))))
             else (None, w))
      in case existing of
           Some existingGameID \<Rightarrow>
             (\<lparr>GameName = gameName, GameID = existingGameID, Success = True, Error = None\<rparr>, w1)
         | None \<Rightarrow>
             (case findSteamGameID lib gameName verbose w1 of
                (Inl err, w2) \<Rightarrow>
                  (\<lparr>GameName = gameName, GameID = 0, Success = False, Error = Some err\<rparr>, w2)
              | (Inr gameID, w2) \<Rightarrow>
                  (case os_WriteFile path (Sprintf_d gameID) w2 of
                     (Some err, w3) \<Rightarrow>
                       (\<lparr>GameName = gameName, GameID = 0, Success = False,
                         Error = Some (ErrorWritingFile err)\<rparr>, w3)
                   | (None, w3) \<Rightarrow>
                       (\<lparr>GameName = gameName, GameID = gameID, Success = True,
                         Error = None\<rparr>, w3))))"

subsection \<open>The calls of a run\<close>

text \<open>
  The calls a run has added to the record: those of \<open>w'\<close> after those of \<open>w\<close>.
\<close>

definition callsSince :: "world \<Rightarrow> world \<Rightarrow> event list" where
  "callsSince w w' = drop (length (calls w)) (calls w')"

text \<open>
  What one call of the resolver records: the call itself, and the request unless the name
  is empty.
\<close>

definition resolverCalls :: "string \<Rightarrow> event list" where
  "resolverCalls g = Call_findSteamGameID g # (if g = [] then [] else [Call_Get (requestURL g)])"

subsection \<open>An example environment\<close>

text \<open>
  The specification's end-to-end example: the remote API answers the search for
  \<open>Portal\<close> with one item of identifier 400, and every other search with an empty
  list; the bodies are written as the specification writes them. \<open>filepath.Join\<close>
  of a clean relative directory and a file name puts a slash between them.
\<close>

definition exampleLib :: golib where
  "exampleLib =
     \<lparr>json_Unmarshal = (\<lambda>body.
        if body = ''{items:[{id:400,name:Portal}]}''
        then Inr \<lparr>Items = [\<lparr>ID = 400, Name = ''Portal''\<rparr>]\<rparr>
        else if body = ''{items:[]}'' then Inr \<lparr>Items = []\<rparr>
        else Inl (External ''invalid character'')),
      filepath_Join = (\<lambda>dir file. dir @ ''/'' @ file)\<rparr>"

definition exampleWorld :: world where
  "exampleWorld =
     \<lparr>files = (\<lambda>name. None),
      read_error = (\<lambda>name. None),
      write_error = (\<lambda>name. None),
      remote = (\<lambda>url.
        if url = requestURL ''Portal''
        then Inr \<lparr>StatusCode = 200, Body = Inr ''{items:[{id:400,name:Portal}]}''\<rparr>
        else Inr \<lparr>StatusCode = 200, Body = Inr ''{items:[]}''\<rparr>),
      calls = []\<rparr>"

text \<open>
  The example with a stored record for \<open>Portal\<close>, and the example with an output
  directory that cannot be written.
\<close>

definition cachedWorld :: "string \<Rightarrow> world" where
  "cachedWorld content =
     exampleWorld\<lparr>files := (\<lambda>name. if name = ''output/Portal.steam'' then Some content else None)\<rparr>"

definition readOnlyWorld :: world where
  "readOnlyWorld = exampleWorld\<lparr>write_error := (\<lambda>name. Some (External ''permission denied''))\<rparr>"

section \<open>Properties of the resolver and the item processor\<close>

lemma findSteamGameID_calls:
  "snd (findSteamGameID lib g v w) =
     w\<lparr>calls := calls w @ Call_findSteamGameID g #
        (if g = [] then [] else [Call_Get (requestURL g)])\<rparr>"
  by (simp add: findSteamGameID_def http_Get_def Let_def split: sum.splits)

lemma findSteamGameID_result:
  "fst (findSteamGameID lib g v w) =
     (if g = [] then Inl EmptyGameName
      else case remote w (requestURL g) of
        Inl err \<Rightarrow> Inl err
      | Inr resp \<Rightarrow>
          if StatusCode resp \<noteq> 200 then Inl (HTTPError (StatusCode resp))
          else case Body resp of
            Inl err \<Rightarrow> Inl err
          | Inr body \<Rightarrow>
              (case json_Unmarshal lib body of
                 Inl err \<Rightarrow> Inl err
               | Inr api \<Rightarrow>
                   (case Items api of [] \<Rightarrow> Inl NoResultsFound | item # others \<Rightarrow> Inr (ID item))))"
  by (simp add: findSteamGameID_def http_Get_def Let_def split: sum.splits list.splits)

text \<open>
  Claim C5. When the response is parsed, \<open>findSteamGameID\<close> returns the identifier
  of the first item of the list, whatever the other items are, and the error
  \<open>no results found\<close> when the list is empty.
\<close>

theorem resolve_first_item:
  assumes "gameName \<noteq> []"
    and "remote w (requestURL gameName) = Inr resp"
    and "StatusCode resp = 200"
    and "Body resp = Inr body"
    and "json_Unmarshal lib body = Inr api"
  shows "fst (findSteamGameID lib gameName verbose w) =
           (case Items api of [] \<Rightarrow> Inl NoResultsFound | item # others \<Rightarrow> Inr (ID item))"
  using assms by (simp add: findSteamGameID_result)

lemma example_url: "requestURL ''Portal'' \<noteq> requestURL ''Nonexistent Game XYZ123''"
  by code_simp

theorem resolve_first_item_witness:
  "fst (findSteamGameID exampleLib ''Portal'' False exampleWorld) = Inr 400 \<and>
   fst (findSteamGameID exampleLib ''Nonexistent Game XYZ123'' False exampleWorld) =
     Inl NoResultsFound"
proof
  have "fst (findSteamGameID exampleLib ''Portal'' False exampleWorld) =
      (case Items \<lparr>Items = [\<lparr>ID = 400, Name = ''Portal''\<rparr>]\<rparr> of
         [] \<Rightarrow> Inl NoResultsFound | item # others \<Rightarrow> Inr (ID item))"
    by (rule resolve_first_item [where resp = "\<lparr>StatusCode = 200, Body = Inr ''{items:[{id:400,name:Portal}]}''\<rparr>"
          and body = "''{items:[{id:400,name:Portal}]}''"])
       (simp_all add: exampleWorld_def exampleLib_def)
  then show "fst (findSteamGameID exampleLib ''Portal'' False exampleWorld) = Inr 400"
    by simp
next
  have "fst (findSteamGameID exampleLib ''Nonexistent Game XYZ123'' False exampleWorld) =
      (case Items \<lparr>Items = []\<rparr> of
         [] \<Rightarrow> Inl NoResultsFound | item # others \<Rightarrow> Inr (ID item))"
    by (rule resolve_first_item [where resp = "\<lparr>StatusCode = 200, Body = Inr ''{items:[]}''\<rparr>"
          and body = "''{items:[]}''"])
       (simp_all add: exampleWorld_def exampleLib_def example_url [symmetric])
  then show "fst (findSteamGameID exampleLib ''Nonexistent Game XYZ123'' False exampleWorld) =
     Inl NoResultsFound"
    by simp
qed

lemma findSteamGameID_calls':
  "snd (findSteamGameID lib g v w) = w\<lparr>calls := calls w @ resolverCalls g\<rparr>"
  by (simp add: findSteamGameID_calls resolverCalls_def)

lemma findSteamGameID_calls_indep:
  "fst (findSteamGameID lib g v (w\<lparr>calls := t\<rparr>)) = fst (findSteamGameID lib g v' w)"
  by (simp add: findSteamGameID_result)

lemma process_fresh:
  "processSingleGame lib g d False v w =
     (case fst (findSteamGameID lib g v w) of
        Inl err \<Rightarrow>
          (\<lparr>GameName = g, GameID = 0, Success = False, Error = Some err\<rparr>,
           w\<lparr>calls := calls w @ resolverCalls g\<rparr>)
      | Inr gameID \<Rightarrow>
          (case write_error w (steamFilePath lib d g) of
             Some err \<Rightarrow>
               (\<lparr>GameName = g, GameID = 0, Success = False, Error = Some (ErrorWritingFile err)\<rparr>,
                w\<lparr>calls := calls w @ resolverCalls g @
                   [Call_WriteFile (steamFilePath lib d g) (Sprintf_d gameID)]\<rparr>)
           | None \<Rightarrow>
               (\<lparr>GameName = g, GameID = gameID, Success = True, Error = None\<rparr>,
                w\<lparr>files := (files w)(steamFilePath lib d g \<mapsto> Sprintf_d gameID),
                  calls := calls w @ resolverCalls g @
                   [Call_WriteFile (steamFilePath lib d g) (Sprintf_d gameID)]\<rparr>)))"
  by (simp add: processSingleGame_def Let_def split_beta findSteamGameID_calls' os_WriteFile_def
        split: sum.splits option.splits)

lemma process_skip_hit:
  assumes "files w (steamFilePath lib d g) = Some content"
    and "read_error w (steamFilePath lib d g) = None"
    and "Sscanf_d content = Inr n"
  shows "processSingleGame lib g d True v w =
     (\<lparr>GameName = g, GameID = n, Success = True, Error = None\<rparr>,
      w\<lparr>calls := calls w @ [Call_Stat (steamFilePath lib d g), Call_ReadFile (steamFilePath lib d g)]\<rparr>)"
  using assms by (simp add: processSingleGame_def Let_def os_Stat_def os_ReadFile_def)

lemma process_skip_miss:
  assumes "files w (steamFilePath lib d g) = Some content"
    and "read_error w (steamFilePath lib d g) = None"
    and "Sscanf_d content = Inl e"
  shows "processSingleGame lib g d True v w =
     processSingleGame lib g d False v
       (w\<lparr>calls := calls w @ [Call_Stat (steamFilePath lib d g), Call_ReadFile (steamFilePath lib d g)]\<rparr>)"
  using assms by (simp add: processSingleGame_def Let_def os_Stat_def os_ReadFile_def)

lemma process_fresh_calls_indep:
  "processSingleGame lib g d False v (w\<lparr>calls := t\<rparr>) =
     (fst (processSingleGame lib g d False v w),
      (snd (processSingleGame lib g d False v w))
        \<lparr>calls := t @ callsSince w (snd (processSingleGame lib g d False v w))\<rparr>)"
  by (simp add: process_fresh findSteamGameID_calls_indep [where v' = v] callsSince_def
        split: sum.splits option.splits)

lemma process_cases:
  "(\<exists>content n. skip \<and> files w (steamFilePath lib d g) = Some content \<and>
       read_error w (steamFilePath lib d g) = None \<and> Sscanf_d content = Inr n \<and>
       processSingleGame lib g d skip v w =
         (\<lparr>GameName = g, GameID = n, Success = True, Error = None\<rparr>,
          w\<lparr>calls := calls w @ [Call_Stat (steamFilePath lib d g),
                                 Call_ReadFile (steamFilePath lib d g)]\<rparr>)) \<or>
   (\<exists>pre. set pre \<subseteq> {Call_Stat (steamFilePath lib d g), Call_ReadFile (steamFilePath lib d g)} \<and>
       processSingleGame lib g d skip v w =
         processSingleGame lib g d False v (w\<lparr>calls := calls w @ pre\<rparr>))"
proof (cases skip)
  case False
  have "processSingleGame lib g d skip v w = processSingleGame lib g d False v (w\<lparr>calls := calls w @ []\<rparr>)"
    using False by simp
  then show ?thesis by (intro disjI2 exI [of _ "[]"]) simp
next
  case True
  let ?p = "steamFilePath lib d g"
  show ?thesis
  proof (cases "files w ?p")
    case None
    then have "processSingleGame lib g d skip v w =
        processSingleGame lib g d False v (w\<lparr>calls := calls w @ [Call_Stat ?p]\<rparr>)"
      using True by (simp add: processSingleGame_def Let_def os_Stat_def)
    then show ?thesis by (intro disjI2 exI [of _ "[Call_Stat ?p]"]) simp
  next
    case (Some content)
    show ?thesis
    proof (cases "read_error w ?p")
      case (Some err)
      then have "processSingleGame lib g d skip v w =
          processSingleGame lib g d False v (w\<lparr>calls := calls w @ [Call_Stat ?p, Call_ReadFile ?p]\<rparr>)"
        using True \<open>files w ?p = Some content\<close>
        by (simp add: processSingleGame_def Let_def os_Stat_def os_ReadFile_def)
      then show ?thesis by (intro disjI2 exI [of _ "[Call_Stat ?p, Call_ReadFile ?p]"]) simp
    next
      case None
      show ?thesis
      proof (cases "Sscanf_d content")
        case (Inl e)
        then have "processSingleGame lib g d skip v w =
            processSingleGame lib g d False v (w\<lparr>calls := calls w @ [Call_Stat ?p, Call_ReadFile ?p]\<rparr>)"
          using True None \<open>files w ?p = Some content\<close> by (simp add: process_skip_miss)
        then show ?thesis by (intro disjI2 exI [of _ "[Call_Stat ?p, Call_ReadFile ?p]"]) simp
      next
        case (Inr n)
        then show ?thesis
          using True None \<open>files w ?p = Some content\<close>
          by (intro disjI1 exI [of _ content] exI [of _ n]) (simp add: process_skip_hit)
      qed
    qed
  qed
qed

lemma callsSince_append [simp]: "callsSince w (w'\<lparr>calls := calls w @ t\<rparr>) = t"
  by (simp add: callsSince_def)

lemma process_fresh_shifted:
  "processSingleGame lib g d False v (w\<lparr>calls := calls w @ pre\<rparr>) =
     (fst (processSingleGame lib g d False v w),
      (snd (processSingleGame lib g d False v w))
        \<lparr>calls := calls w @ pre @ callsSince w (snd (processSingleGame lib g d False v w))\<rparr>)"
  by (simp add: process_fresh_calls_indep)

lemma fresh_callsSince:
  "callsSince w (snd (processSingleGame lib g d False v w)) =
     resolverCalls g @
       (case fst (findSteamGameID lib g v w) of
          Inl err \<Rightarrow> []
        | Inr gameID \<Rightarrow> [Call_WriteFile (steamFilePath lib d g) (Sprintf_d gameID)])"
  by (simp add: process_fresh split: sum.splits option.splits)

text \<open>
  Claim C3. With \<open>shouldSkipExisting\<close> set and a stored record that exists and can
  be read: when its content scans as an integer, \<open>processSingleGame\<close> returns a
  success with that integer, and the only calls it makes are \<open>os.Stat\<close> and
  \<open>os.ReadFile\<close>, so the resolver is not called; when its content does not scan,
  the result, the files and the calls that follow are those of a run without the flag,
  and the resolver is called.
\<close>

theorem cache_skip:
  assumes "files w (steamFilePath lib d g) = Some content"
    and "read_error w (steamFilePath lib d g) = None"
  shows "(\<forall>n. Sscanf_d content = Inr n \<longrightarrow>
            processSingleGame lib g d True v w =
              (\<lparr>GameName = g, GameID = n, Success = True, Error = None\<rparr>,
               w\<lparr>calls := calls w @ [Call_Stat (steamFilePath lib d g),
                                      Call_ReadFile (steamFilePath lib d g)]\<rparr>)) \<and>
         (\<forall>e. Sscanf_d content = Inl e \<longrightarrow>
            fst (processSingleGame lib g d True v w) = fst (processSingleGame lib g d False v w) \<and>
            files (snd (processSingleGame lib g d True v w)) =
              files (snd (processSingleGame lib g d False v w)) \<and>
            callsSince w (snd (processSingleGame lib g d True v w)) =
              [Call_Stat (steamFilePath lib d g), Call_ReadFile (steamFilePath lib d g)] @
              callsSince w (snd (processSingleGame lib g d False v w)) \<and>
            Call_findSteamGameID g \<in> set (callsSince w (snd (processSingleGame lib g d True v w))))"
proof (intro conjI allI impI)
  fix n assume "Sscanf_d content = Inr n"
  with assms show "processSingleGame lib g d True v w =
              (\<lparr>GameName = g, GameID = n, Success = True, Error = None\<rparr>,
               w\<lparr>calls := calls w @ [Call_Stat (steamFilePath lib d g),
                                      Call_ReadFile (steamFilePath lib d g)]\<rparr>)"
    by (rule process_skip_hit)
next
  fix e assume e: "Sscanf_d content = Inl e"
  let ?p = "steamFilePath lib d g"
  let ?fresh = "processSingleGame lib g d False v w"
  have run: "processSingleGame lib g d True v w =
      (fst ?fresh, (snd ?fresh)\<lparr>calls := calls w @ [Call_Stat ?p, Call_ReadFile ?p] @ callsSince w (snd ?fresh)\<rparr>)"
    using process_skip_miss [OF assms e] by (simp only: process_fresh_shifted)
  show "fst (processSingleGame lib g d True v w) = fst ?fresh"
    by (simp add: run)
  show "files (snd (processSingleGame lib g d True v w)) = files (snd ?fresh)"
    by (simp add: run)
  show c: "callsSince w (snd (processSingleGame lib g d True v w)) =
      [Call_Stat ?p, Call_ReadFile ?p] @ callsSince w (snd ?fresh)"
    by (simp add: run callsSince_def)
  show "Call_findSteamGameID g \<in> set (callsSince w (snd (processSingleGame lib g d True v w)))"
    by (simp add: c fresh_callsSince resolverCalls_def)
qed

lemma example_path: "steamFilePath exampleLib ''output'' ''Portal'' = ''output/Portal.steam''"
  by code_simp

lemma portal_resolves:
  "remote w = remote exampleWorld \<Longrightarrow> fst (findSteamGameID exampleLib ''Portal'' v w) = Inr 400"
  by (simp add: findSteamGameID_result exampleWorld_def exampleLib_def)

lemma cachedWorld_simps:
  "files (cachedWorld content) ''output/Portal.steam'' = Some content"
  "read_error (cachedWorld content) name = None"
  "write_error (cachedWorld content) name = None"
  "remote (cachedWorld content) = remote exampleWorld"
  "calls (cachedWorld content) = []"
  by (simp_all add: cachedWorld_def exampleWorld_def)

lemma readOnlyWorld_simps:
  "files readOnlyWorld name = None"
  "write_error readOnlyWorld name = Some (External ''permission denied'')"
  "remote readOnlyWorld = remote exampleWorld"
  "calls readOnlyWorld = []"
  by (simp_all add: readOnlyWorld_def exampleWorld_def)

lemmas scan_defs =
  Sscanf_d_def scanInt_def isSpace_def isSign_def isDecimalDigit_def digitsValue_def

lemma scan_7: "Sscanf_d ''7'' = Inr 7"
  by (simp add: scan_defs)

lemma scan_minus_5: "Sscanf_d ''-5'' = Inr (- 5)"
  by (simp add: scan_defs)

lemma scan_abc: "Sscanf_d ''abc'' = Inl (External ''expected integer'')"
  by (simp add: scan_defs)

lemmas scan_examples = scan_7 scan_minus_5 scan_abc

lemma portal_fresh_result: "fst (processSingleGame exampleLib ''Portal'' ''output'' False False (cachedWorld ''abc'')) =
    \<lparr>GameName = ''Portal'', GameID = 400, Success = True, Error = None\<rparr>"
  by (simp add: process_fresh portal_resolves cachedWorld_simps)

theorem cache_skip_witness:
  "processSingleGame exampleLib ''Portal'' ''output'' True False (cachedWorld ''7'') =
     (\<lparr>GameName = ''Portal'', GameID = 7, Success = True, Error = None\<rparr>,
      cachedWorld ''7''\<lparr>calls := [Call_Stat ''output/Portal.steam'', Call_ReadFile ''output/Portal.steam'']\<rparr>) \<and>
   fst (processSingleGame exampleLib ''Portal'' ''output'' True False (cachedWorld ''abc'')) =
     \<lparr>GameName = ''Portal'', GameID = 400, Success = True, Error = None\<rparr> \<and>
   Call_findSteamGameID ''Portal'' \<in>
     set (callsSince (cachedWorld ''abc'')
       (snd (processSingleGame exampleLib ''Portal'' ''output'' True False (cachedWorld ''abc''))))"
proof -
  have hit: "files (cachedWorld ''7'') (steamFilePath exampleLib ''output'' ''Portal'') = Some ''7''"
      "read_error (cachedWorld ''7'') (steamFilePath exampleLib ''output'' ''Portal'') = None"
    by (simp_all add: example_path cachedWorld_simps)
  have miss: "files (cachedWorld ''abc'') (steamFilePath exampleLib ''output'' ''Portal'') = Some ''abc''"
      "read_error (cachedWorld ''abc'') (steamFilePath exampleLib ''output'' ''Portal'') = None"
    by (simp_all add: example_path cachedWorld_simps)
  from cache_skip [OF hit, of False] cache_skip [OF miss, of False] show ?thesis
    by (simp add: scan_examples portal_fresh_result example_path cachedWorld_simps fresh_callsSince
          resolverCalls_def)
qed

text \<open>
  Claim C4. When the resolver is called and succeeds, and writing the record fails,
  \<open>processSingleGame\<close> returns a failure whose error wraps the error of the write:
  the identifier that was resolved is not reported.
\<close>

theorem write_failure_is_failure:
  assumes called: "Call_findSteamGameID g \<in>
      set (callsSince w (snd (processSingleGame lib g d skip v w)))"
    and resolved: "fst (findSteamGameID lib g v w) = Inr gameID"
    and failed: "write_error w (steamFilePath lib d g) = Some err"
  shows "fst (processSingleGame lib g d skip v w) =
           \<lparr>GameName = g, GameID = 0, Success = False, Error = Some (ErrorWritingFile err)\<rparr>"
proof -
  let ?p = "steamFilePath lib d g"
  from process_cases [of skip w lib d g v] show ?thesis
  proof (elim disjE exE conjE)
    fix content n
    assume "processSingleGame lib g d skip v w =
         (\<lparr>GameName = g, GameID = n, Success = True, Error = None\<rparr>,
          w\<lparr>calls := calls w @ [Call_Stat ?p, Call_ReadFile ?p]\<rparr>)"
    with called show ?thesis by simp
  next
    fix pre
    assume "processSingleGame lib g d skip v w =
         processSingleGame lib g d False v (w\<lparr>calls := calls w @ pre\<rparr>)"
    then have "processSingleGame lib g d skip v w =
        (fst (processSingleGame lib g d False v w),
         (snd (processSingleGame lib g d False v w))
           \<lparr>calls := calls w @ pre @ callsSince w (snd (processSingleGame lib g d False v w))\<rparr>)"
      by (simp only: process_fresh_shifted)
    then show ?thesis
      using resolved failed by (simp add: process_fresh)
  qed
qed

theorem write_failure_is_failure_witness:
  "fst (processSingleGame exampleLib ''Portal'' ''output'' False False readOnlyWorld) =
     \<lparr>GameName = ''Portal'', GameID = 0, Success = False,
      Error = Some (ErrorWritingFile (External ''permission denied''))\<rparr>"
proof (rule write_failure_is_failure [where gameID = 400])
  show "Call_findSteamGameID ''Portal'' \<in> set (callsSince readOnlyWorld
      (snd (processSingleGame exampleLib ''Portal'' ''output'' False False readOnlyWorld)))"
    by (simp add: fresh_callsSince resolverCalls_def)
  show "fst (findSteamGameID exampleLib ''Portal'' False readOnlyWorld) = Inr 400"
    by (simp add: portal_resolves readOnlyWorld_simps)
  show "write_error readOnlyWorld (steamFilePath exampleLib ''output'' ''Portal'') =
      Some (External ''permission denied'')"
    by (simp add: readOnlyWorld_simps)
qed

text \<open>
  Claim C8, as amended. The identifier of a success is the integer scanned from the
  stored record, or the identifier of the first item of the parsed response, unchanged:
  the code checks no sign, so the identifier is non-negative only when that integer is.
\<close>

theorem success_identifier_origin:
  assumes "Success (fst (processSingleGame lib g d skip v w))"
  shows "(skip \<and> (\<exists>content. files w (steamFilePath lib d g) = Some content \<and>
             read_error w (steamFilePath lib d g) = None \<and>
             Sscanf_d content = Inr (GameID (fst (processSingleGame lib g d skip v w))))) \<or>
         (\<exists>resp body api item others.
             remote w (requestURL g) = Inr resp \<and> Body resp = Inr body \<and>
             json_Unmarshal lib body = Inr api \<and> Items api = item # others \<and>
             GameID (fst (processSingleGame lib g d skip v w)) = ID item)"
proof -
  let ?p = "steamFilePath lib d g"
  from process_cases [of skip w lib d g v] show ?thesis
  proof (elim disjE exE conjE)
    fix content n
    assume "skip" "files w ?p = Some content" "read_error w ?p = None" "Sscanf_d content = Inr n"
      and "processSingleGame lib g d skip v w =
         (\<lparr>GameName = g, GameID = n, Success = True, Error = None\<rparr>,
          w\<lparr>calls := calls w @ [Call_Stat ?p, Call_ReadFile ?p]\<rparr>)"
    then show ?thesis by simp
  next
    fix pre
    assume "processSingleGame lib g d skip v w =
         processSingleGame lib g d False v (w\<lparr>calls := calls w @ pre\<rparr>)"
    then have run: "fst (processSingleGame lib g d skip v w) = fst (processSingleGame lib g d False v w)"
      by (simp only: process_fresh_shifted fst_conv)
    from assms obtain gameID where r: "fst (findSteamGameID lib g v w) = Inr gameID"
      and id: "GameID (fst (processSingleGame lib g d skip v w)) = gameID"
      unfolding run by (auto simp: process_fresh split: sum.splits option.splits)
    from r have "\<exists>resp body api item others.
             remote w (requestURL g) = Inr resp \<and> Body resp = Inr body \<and>
             json_Unmarshal lib body = Inr api \<and> Items api = item # others \<and>
             gameID = ID item"
      by (auto simp: findSteamGameID_result split: if_splits sum.splits list.splits)
    with id show ?thesis by blast
  qed
qed

text \<open>
  Claim C8 as stated fails: a stored record holding \<open>-5\<close> scans, and with
  \<open>shouldSkipExisting\<close> the result is a success whose identifier is negative.
\<close>

theorem success_negative_identifier_counterexample:
  "Success (fst (processSingleGame exampleLib ''Portal'' ''output'' True False (cachedWorld ''-5''))) \<and>
   GameID (fst (processSingleGame exampleLib ''Portal'' ''output'' True False (cachedWorld ''-5''))) = - 5"
proof -
  have "processSingleGame exampleLib ''Portal'' ''output'' True False (cachedWorld ''-5'') =
     (\<lparr>GameName = ''Portal'', GameID = - 5, Success = True, Error = None\<rparr>,
      cachedWorld ''-5''\<lparr>calls := calls (cachedWorld ''-5'') @
        [Call_Stat (steamFilePath exampleLib ''output'' ''Portal''),
         Call_ReadFile (steamFilePath exampleLib ''output'' ''Portal'')]\<rparr>)"
    by (rule process_skip_hit [where content = "''-5''"])
       (simp_all add: example_path cachedWorld_simps scan_examples)
  then show ?thesis by simp
qed

theorem success_identifier_origin_witness:
  "Success (fst (processSingleGame exampleLib ''Portal'' ''output'' True False (cachedWorld ''7''))) \<and>
   GameID (fst (processSingleGame exampleLib ''Portal'' ''output'' True False (cachedWorld ''7''))) = 7 \<and>
   ((\<exists>content. files (cachedWorld ''7'') (steamFilePath exampleLib ''output'' ''Portal'') = Some content \<and>
       read_error (cachedWorld ''7'') (steamFilePath exampleLib ''output'' ''Portal'') = None \<and>
       Sscanf_d content = Inr 7) \<or>
    (\<exists>resp body api item others.
       remote (cachedWorld ''7'') (requestURL ''Portal'') = Inr resp \<and> Body resp = Inr body \<and>
       json_Unmarshal exampleLib body = Inr api \<and> Items api = item # others \<and> 7 = ID item))"
proof -
  have run: "processSingleGame exampleLib ''Portal'' ''output'' True False (cachedWorld ''7'') =
     (\<lparr>GameName = ''Portal'', GameID = 7, Success = True, Error = None\<rparr>,
      cachedWorld ''7''\<lparr>calls := calls (cachedWorld ''7'') @
        [Call_Stat (steamFilePath exampleLib ''output'' ''Portal''),
         Call_ReadFile (steamFilePath exampleLib ''output'' ''Portal'')]\<rparr>)"
    by (rule process_skip_hit [where content = "''7''"])
       (simp_all add: example_path cachedWorld_simps scan_examples)
  then have s: "Success (fst (processSingleGame exampleLib ''Portal'' ''output'' True False (cachedWorld ''7'')))"
    by simp
  from success_identifier_origin [OF s] show ?thesis
    by (simp add: run)
qed

section \<open>The worker pool\<close>

text \<open>
  \<open>main\<close> adjusts the number of workers to the number of names: with
  \<open>totalGames = len(gameNames)\<close>, the count is the flag, or \<open>totalGames\<close> when that
  is smaller. The flag is any \<open>int\<close>: \<open>main\<close> does not check it, and the
  variable is negative when the flag is.
\<close>

definition actualWorkerCount :: "int \<Rightarrow> string list \<Rightarrow> int" where
  "actualWorkerCount workerCountFlag gameNames =
     (let totalGames = int (length gameNames) in
      if totalGames < workerCountFlag then totalGames else workerCountFlag)"

section \<open>Workers, channels and the aggregation loop\<close>

text \<open>
  The concurrent part of \<open>main\<close> as a transition system. A state holds what the
  goroutines share and where each of them stands:
  \<^item> the sender goroutine: \<open>toSend\<close>, the names it has not sent yet;
  \<^item> the channel \<open>jobQueue\<close>: its buffer and whether it is closed;
  \<^item> each worker: about to receive from \<open>jobQueue\<close>, about to call
    \<open>processSingleGame\<close> on the name it received, about to send its result to
    \<open>resultQueue\<close>, or returned (its deferred \<open>Done\<close> has run);
  \<^item> the counter of \<open>workerWaitGroup\<close>;
  \<^item> the channel \<open>resultQueue\<close>: its buffer and whether it is closed;
  \<^item> the loop of \<open>main\<close> over \<open>resultQueue\<close>: whether it still runs, its four
    variables, and \<open>collected\<close>, the results it has printed, in order;
  \<^item> the capacity both channels were made with, and the environment.
\<close>

datatype worker = Receiving | Processing string | Sending GameResult | Returned

record pool =
  toSend :: "string list"
  jobQueue :: "string list"
  jobClosed :: bool
  workers :: "worker list"
  waitGroup :: nat
  resultQueue :: "GameResult list"
  resultClosed :: bool
  collecting :: bool
  collected :: "GameResult list"
  completedCount :: int
  successCount :: int
  failedCount :: int
  failedGameNames :: "string list"
  capacity :: nat
  env :: world

text \<open>The flags of the command line.\<close>

record flags =
  outputDirectoryFlag :: string
  workerCountFlag :: int
  skipExistingFlag :: bool
  verboseFlag :: bool

text \<open>
  The state when \<open>main\<close> reaches its loop over \<open>resultQueue\<close>: the channels are made
  with capacity \<open>totalGames\<close>, the loop \<open>for i := 0; i < actualWorkerCount; i++\<close> has
  added 1 to the counter and started a worker for each \<open>i\<close> (none when the count is not
  positive), and the two anonymous goroutines are started. A worker started earlier can
  only wait for a name, so nothing has happened yet.
\<close>

definition startPool :: "flags \<Rightarrow> string list \<Rightarrow> world \<Rightarrow> pool" where
  "startPool fl gameNames w =
     (let totalGames = length gameNames;
          started = nat (actualWorkerCount (workerCountFlag fl) gameNames)
      in \<lparr>toSend = gameNames, jobQueue = [], jobClosed = False,
          workers = replicate started Receiving, waitGroup = started,
          resultQueue = [], resultClosed = False,
          collecting = True, collected = [],
          completedCount = 0, successCount = 0, failedCount = 0, failedGameNames = [],
          capacity = totalGames, env = w\<rparr>)"

text \<open>
  One step of one goroutine. A step that its goroutine cannot take in the state (a send on
  a full channel, a receive from an empty one, \<open>Wait\<close> on a counter that is not 0) is
  \<open>None\<close>; so is a step that would panic (a send on a closed channel, \<open>Done\<close> on
  a counter that is 0).
  \<^item> \<open>Send\<close>: the sender sends the next name to \<open>jobQueue\<close>;
  \<^item> \<open>CloseJobs\<close>: the sender has sent every name and closes \<open>jobQueue\<close>;
  \<^item> \<open>Receive i\<close>: worker \<open>i\<close> receives a name;
  \<^item> \<open>Process i\<close>: worker \<open>i\<close> runs \<open>processSingleGame\<close> on its name, as one
    step: the calls of two workers on the environment are not interleaved, and nothing
    proved below depends on the environment;
  \<^item> \<open>Push i\<close>: worker \<open>i\<close> sends its result to \<open>resultQueue\<close>;
  \<^item> \<open>Return i\<close>: worker \<open>i\<close> finds \<open>jobQueue\<close> closed and empty, leaves its loop
    and runs \<open>Done\<close>;
  \<^item> \<open>CloseResults\<close>: \<open>Wait\<close> returns and \<open>resultQueue\<close> is closed;
  \<^item> \<open>Collect\<close>: the loop of \<open>main\<close> receives a result and runs its body;
  \<^item> \<open>Finish\<close>: the loop of \<open>main\<close> finds \<open>resultQueue\<close> closed and empty and ends.
\<close>

datatype action =
    Send | CloseJobs | Receive nat | Process nat | Push nat | Return nat
  | CloseResults | Collect | Finish

text \<open>The body of the loop over \<open>resultQueue\<close>, for one result.\<close>

definition collect :: "GameResult \<Rightarrow> pool \<Rightarrow> pool" where
  "collect result s =
     (let s1 = s\<lparr>completedCount := completedCount s + 1, collected := collected s @ [result]\<rparr>
      in if Success result then s1\<lparr>successCount := successCount s1 + 1\<rparr>
         else s1\<lparr>failedCount := failedCount s1 + 1,
                 failedGameNames := failedGameNames s1 @ [GameName result]\<rparr>)"

definition workerAt :: "pool \<Rightarrow> nat \<Rightarrow> worker option" where
  "workerAt s i = (if i < length (workers s) then Some (workers s ! i) else None)"

fun step :: "golib \<Rightarrow> flags \<Rightarrow> action \<Rightarrow> pool \<Rightarrow> pool option" where
  "step lib fl Send s =
     (case toSend s of
        gameName # rest \<Rightarrow>
          if \<not> jobClosed s \<and> length (jobQueue s) < capacity s
          then Some (s\<lparr>toSend := rest, jobQueue := jobQueue s @ [gameName]\<rparr>)
          else None
      | [] \<Rightarrow> None)"
| "step lib fl CloseJobs s =
     (if toSend s = [] \<and> \<not> jobClosed s then Some (s\<lparr>jobClosed := True\<rparr>) else None)"
| "step lib fl (Receive i) s =
     (case (workerAt s i, jobQueue s) of
        (Some Receiving, gameName # rest) \<Rightarrow>
          Some (s\<lparr>jobQueue := rest, workers := (workers s)[i := Processing gameName]\<rparr>)
      | _ \<Rightarrow> None)"
| "step lib fl (Process i) s =
     (case workerAt s i of
        Some (Processing gameName) \<Rightarrow>
          (case processSingleGame lib gameName (outputDirectoryFlag fl) (skipExistingFlag fl)
                  (verboseFlag fl) (env s) of
             (result, w) \<Rightarrow> Some (s\<lparr>workers := (workers s)[i := Sending result], env := w\<rparr>))
      | _ \<Rightarrow> None)"
| "step lib fl (Push i) s =
     (case workerAt s i of
        Some (Sending result) \<Rightarrow>
          if \<not> resultClosed s \<and> length (resultQueue s) < capacity s
          then Some (s\<lparr>resultQueue := resultQueue s @ [result],
                       workers := (workers s)[i := Receiving]\<rparr>)
          else None
      | _ \<Rightarrow> None)"
| "step lib fl (Return i) s =
     (case workerAt s i of
        Some Receiving \<Rightarrow>
          if jobQueue s = [] \<and> jobClosed s \<and> 0 < waitGroup s
          then Some (s\<lparr>workers := (workers s)[i := Returned], waitGroup := waitGroup s - 1\<rparr>)
          else None
      | _ \<Rightarrow> None)"
| "step lib fl CloseResults s =
     (if waitGroup s = 0 \<and> \<not> resultClosed s then Some (s\<lparr>resultClosed := True\<rparr>) else None)"
| "step lib fl Collect s =
     (case resultQueue s of
        result # rest \<Rightarrow>
          if collecting s then Some (collect result (s\<lparr>resultQueue := rest\<rparr>)) else None
      | [] \<Rightarrow> None)"
| "step lib fl Finish s =
     (if collecting s \<and> resultQueue s = [] \<and> resultClosed s
      then Some (s\<lparr>collecting := False\<rparr>) else None)"

text \<open>A schedule is the list of the steps taken, in order.\<close>

fun run :: "golib \<Rightarrow> flags \<Rightarrow> action list \<Rightarrow> pool \<Rightarrow> pool option" where
  "run lib fl [] s = Some s"
| "run lib fl (a # schedule) s =
     (case step lib fl a s of None \<Rightarrow> None | Some s' \<Rightarrow> run lib fl schedule s')"

text \<open>What the summary of \<open>main\<close> reports, and whether the loop still runs.\<close>

definition tally :: "pool \<Rightarrow> bool \<times> int \<times> int \<times> int" where
  "tally s = (collecting s, completedCount s, successCount s, failedCount s)"

subsection \<open>What the proofs count\<close>

text \<open>
  The name a worker holds: the one it is about to process, or the one of the result it is
  about to send.
\<close>

fun inFlight :: "worker \<Rightarrow> string multiset" where
  "inFlight Receiving = {#}"
| "inFlight (Processing gameName) = {#gameName#}"
| "inFlight (Sending result) = {#GameName result#}"
| "inFlight Returned = {#}"

text \<open>Whether a worker still counts in \<open>workerWaitGroup\<close>.\<close>

fun running :: "worker \<Rightarrow> nat" where
  "running Receiving = 1"
| "running (Processing gameName) = 1"
| "running (Sending result) = 1"
| "running Returned = 0"

text \<open>
  The steps a worker has left before it returns, with the \<open>Collect\<close> of the result
  it holds.
\<close>

fun stepsLeft :: "worker \<Rightarrow> nat" where
  "stepsLeft Receiving = 1"
| "stepsLeft (Processing gameName) = 4"
| "stepsLeft (Sending result) = 3"
| "stepsLeft Returned = 0"

text \<open>
  Every name of the input is in exactly one place: not sent yet, in \<open>jobQueue\<close>,
  held by a worker, in \<open>resultQueue\<close> as the name of a result, or collected.
\<close>

definition accounted :: "pool \<Rightarrow> string multiset" where
  "accounted s =
     mset (toSend s) + mset (jobQueue s) + sum_list (map inFlight (workers s)) +
     mset (map GameName (resultQueue s)) + mset (map GameName (collected s))"

text \<open>
  The number of steps that are left: five for a name not sent yet (send, receive, process,
  push, collect), one for each worker to return, one for each close and one for the end
  of the loop.
\<close>

definition remaining :: "pool \<Rightarrow> nat" where
  "remaining s =
     5 * length (toSend s) + 4 * length (jobQueue s) + sum_list (map stepsLeft (workers s)) +
     length (resultQueue s) +
     (if jobClosed s then 0 else 1) + (if resultClosed s then 0 else 1) +
     (if collecting s then 1 else 0)"

text \<open>The invariant of the transition system, for the names \<open>main\<close> started with.\<close>

definition poolInv :: "flags \<Rightarrow> string list \<Rightarrow> pool \<Rightarrow> bool" where
  "poolInv fl gameNames s =
     (accounted s = mset gameNames \<and>
      capacity s = length gameNames \<and>
      length (workers s) = nat (actualWorkerCount (workerCountFlag fl) gameNames) \<and>
      waitGroup s = sum_list (map running (workers s)) \<and>
      (jobClosed s \<longrightarrow> toSend s = []) \<and>
      (Returned \<in> set (workers s) \<longrightarrow> jobClosed s \<and> jobQueue s = []) \<and>
      (resultClosed s \<longrightarrow> waitGroup s = 0) \<and>
      (\<not> collecting s \<longrightarrow> resultClosed s \<and> resultQueue s = []) \<and>
      completedCount s = int (length (collected s)) \<and>
      successCount s = int (length (filter Success (collected s))) \<and>
      failedCount s = int (length (filter (\<lambda>r. \<not> Success r) (collected s))) \<and>
      failedGameNames s = map GameName (filter (\<lambda>r. \<not> Success r) (collected s)))"

text \<open>
  The default flags, and a complete schedule for one name and one worker.
\<close>

definition exampleFlags :: flags where
  "exampleFlags =
     \<lparr>outputDirectoryFlag = ''output'', workerCountFlag = 8, skipExistingFlag = False,
      verboseFlag = False\<rparr>"

definition exampleSchedule :: "action list" where
  "exampleSchedule =
     [Send, CloseJobs, Receive 0, Process 0, Push 0, Return 0, CloseResults, Collect, Finish]"

subsection \<open>The executors started\<close>

text \<open>
  Claim C6, as amended. The number of workers started is
  \<open>max 0 (min configured N)\<close>, each of them waiting for a name and counted in
  \<open>workerWaitGroup\<close>: it is the minimum of the configured count and the number of
  names whenever the configured count is not negative, and it is at least 1 when the list
  of names is not empty and the configured count is at least 1.
\<close>

theorem executors_started:
  "workers (startPool fl gameNames w) =
     replicate (length (workers (startPool fl gameNames w))) Receiving \<and>
   waitGroup (startPool fl gameNames w) = length (workers (startPool fl gameNames w)) \<and>
   int (length (workers (startPool fl gameNames w))) =
     max 0 (min (workerCountFlag fl) (int (length gameNames))) \<and>
   (0 \<le> workerCountFlag fl \<longrightarrow>
      int (length (workers (startPool fl gameNames w))) =
        min (workerCountFlag fl) (int (length gameNames))) \<and>
   (1 \<le> workerCountFlag fl \<longrightarrow> gameNames \<noteq> [] \<longrightarrow>
      1 \<le> length (workers (startPool fl gameNames w)))"
proof -
  have n: "gameNames \<noteq> [] \<Longrightarrow> 1 \<le> int (length gameNames)"
    by (cases gameNames) simp_all
  have len: "int (length (workers (startPool fl gameNames w))) =
      max 0 (min (workerCountFlag fl) (int (length gameNames)))"
    by (simp add: startPool_def actualWorkerCount_def Let_def min_def max_def)
  have shape: "workers (startPool fl gameNames w) =
      replicate (length (workers (startPool fl gameNames w))) Receiving"
    and wg: "waitGroup (startPool fl gameNames w) = length (workers (startPool fl gameNames w))"
    by (simp_all add: startPool_def Let_def)
  from len have nonneg: "0 \<le> workerCountFlag fl \<longrightarrow>
      int (length (workers (startPool fl gameNames w))) =
        min (workerCountFlag fl) (int (length gameNames))"
    by (simp add: min_def max_def)
  from len n have pos: "1 \<le> workerCountFlag fl \<longrightarrow> gameNames \<noteq> [] \<longrightarrow>
      1 \<le> length (workers (startPool fl gameNames w))"
    by (auto simp: min_def max_def split: if_splits)
  from shape wg len nonneg pos show ?thesis by blast
qed

theorem executors_started_witness:
  "length (workers (startPool exampleFlags [''Portal'', ''Half-Life 2''] exampleWorld)) = 2 \<and>
   workers (startPool exampleFlags [''Portal'', ''Half-Life 2''] exampleWorld) =
     [Receiving, Receiving] \<and>
   waitGroup (startPool exampleFlags [''Portal'', ''Half-Life 2''] exampleWorld) = 2"
proof -
  have f: "0 \<le> workerCountFlag exampleFlags" "1 \<le> workerCountFlag exampleFlags"
    "workerCountFlag exampleFlags = 8"
    by (simp_all add: exampleFlags_def)
  have l: "length (workers (startPool exampleFlags [''Portal'', ''Half-Life 2''] exampleWorld)) = 2"
    using executors_started [of exampleFlags "[''Portal'', ''Half-Life 2'']" exampleWorld] f
    by simp
  with executors_started [of exampleFlags "[''Portal'', ''Half-Life 2'']" exampleWorld]
  show ?thesis by (simp add: numeral_2_eq_2)
qed

text \<open>
  Claim C6 as stated fails twice. With \<open>--workers 0\<close> and one name no worker is
  started, so the number of executors is not at least 1. With \<open>--workers -3\<close> the
  variable \<open>actualWorkerCount\<close> is -3 and the loop that starts the workers does not run:
  the number of executors is 0, not the minimum of -3 and 1.
\<close>

theorem executors_started_counterexample:
  "[''Portal''] \<noteq> [] \<and>
   length (workers (startPool (exampleFlags\<lparr>workerCountFlag := 0\<rparr>) [''Portal'']
     exampleWorld)) = 0 \<and>
   actualWorkerCount (- 3) [''Portal''] = - 3 \<and>
   length (workers (startPool (exampleFlags\<lparr>workerCountFlag := - 3\<rparr>) [''Portal'']
     exampleWorld)) = 0 \<and>
   int (length (workers (startPool (exampleFlags\<lparr>workerCountFlag := - 3\<rparr>) [''Portal'']
     exampleWorld))) \<noteq> min (- 3) (int (length [''Portal'']))"
  by (simp add: startPool_def exampleFlags_def actualWorkerCount_def)

subsection \<open>Steps left, invariant and progress\<close>

lemma sum_list_map_update:
  fixes f :: "'a \<Rightarrow> 'b::comm_monoid_add"
  shows "i < length ws \<Longrightarrow> sum_list (map f (ws[i := x])) + f (ws ! i) = sum_list (map f ws) + f x"
proof (induction ws arbitrary: i)
  case Nil
  then show ?case by simp
next
  case (Cons w ws)
  show ?case
  proof (cases i)
    case 0
    then show ?thesis by (simp add: ac_simps)
  next
    case (Suc j)
    with Cons.prems have "j < length ws" by simp
    from Cons.IH [OF this] Suc show ?thesis
      by (simp add: add.assoc)
  qed
qed

lemma workerAt_Some: "workerAt s i = Some x \<Longrightarrow> i < length (workers s) \<and> workers s ! i = x"
  by (auto simp: workerAt_def split: if_splits)

lemma process_fresh_GameName: "GameName (fst (processSingleGame lib g d False v w)) = g"
  by (simp add: process_fresh split: sum.splits option.splits)

lemma process_GameName: "GameName (fst (processSingleGame lib g d skip v w)) = g"
proof -
  from process_cases [of skip w lib d g v] show ?thesis
  proof (elim disjE exE conjE)
    fix content n
    assume "processSingleGame lib g d skip v w =
         (\<lparr>GameName = g, GameID = n, Success = True, Error = None\<rparr>,
          w\<lparr>calls := calls w @ [Call_Stat (steamFilePath lib d g),
                                 Call_ReadFile (steamFilePath lib d g)]\<rparr>)"
    then show ?thesis by simp
  next
    fix pre
    assume "processSingleGame lib g d skip v w =
         processSingleGame lib g d False v (w\<lparr>calls := calls w @ pre\<rparr>)"
    then show ?thesis by (simp only: process_fresh_GameName)
  qed
qed

lemma step_remaining:
  assumes "step lib fl a s = Some s'"
  shows "remaining s = Suc (remaining s')"
proof (cases a)
  case Send
  with assms show ?thesis
    by (auto simp: remaining_def split: list.splits if_splits)
next
  case CloseJobs
  with assms show ?thesis
    by (auto simp: remaining_def split: if_splits)
next
  case (Receive i)
  with assms obtain g rest where w: "workerAt s i = Some Receiving" and q: "jobQueue s = g # rest"
    and s': "s' = s\<lparr>jobQueue := rest, workers := (workers s)[i := Processing g]\<rparr>"
    by (auto split: option.splits worker.splits list.splits)
  from workerAt_Some [OF w] sum_list_map_update [of i "workers s" stepsLeft "Processing g"]
  show ?thesis by (simp add: remaining_def s' q)
next
  case (Process i)
  with assms obtain g where w: "workerAt s i = Some (Processing g)"
    and s': "s' = s\<lparr>workers := (workers s)[i := Sending (fst (processSingleGame lib g
        (outputDirectoryFlag fl) (skipExistingFlag fl) (verboseFlag fl) (env s)))],
        env := snd (processSingleGame lib g
        (outputDirectoryFlag fl) (skipExistingFlag fl) (verboseFlag fl) (env s))\<rparr>"
    by (auto split: option.splits worker.splits prod.splits)
  from workerAt_Some [OF w] sum_list_map_update [of i "workers s" stepsLeft
      "Sending (fst (processSingleGame lib g
        (outputDirectoryFlag fl) (skipExistingFlag fl) (verboseFlag fl) (env s)))"]
  show ?thesis by (simp add: remaining_def s')
next
  case (Push i)
  with assms obtain r where w: "workerAt s i = Some (Sending r)"
    and s': "s' = s\<lparr>resultQueue := resultQueue s @ [r], workers := (workers s)[i := Receiving]\<rparr>"
    by (auto split: option.splits worker.splits if_splits)
  from workerAt_Some [OF w] sum_list_map_update [of i "workers s" stepsLeft Receiving]
  show ?thesis by (simp add: remaining_def s')
next
  case (Return i)
  with assms have w: "workerAt s i = Some Receiving"
    and s': "s' = s\<lparr>workers := (workers s)[i := Returned], waitGroup := waitGroup s - 1\<rparr>"
    by (auto split: option.splits worker.splits if_splits)
  from workerAt_Some [OF w] sum_list_map_update [of i "workers s" stepsLeft Returned]
  show ?thesis by (simp add: remaining_def s')
next
  case CloseResults
  with assms show ?thesis
    by (auto simp: remaining_def split: if_splits)
next
  case Collect
  with assms show ?thesis
    by (auto simp: remaining_def collect_def Let_def split: list.splits if_splits)
next
  case Finish
  with assms show ?thesis
    by (auto simp: remaining_def split: if_splits)
qed

lemma run_remaining:
  "run lib fl schedule s = Some s' \<Longrightarrow> remaining s = length schedule + remaining s'"
proof (induction schedule arbitrary: s)
  case Nil
  then show ?case by simp
next
  case (Cons a schedule)
  then obtain s1 where 1: "step lib fl a s = Some s1" and 2: "run lib fl schedule s1 = Some s'"
    by (auto split: option.splits)
  from step_remaining [OF 1] Cons.IH [OF 2] show ?case by simp
qed

lemma update_inFlight:
  assumes "workerAt s i = Some old"
  shows "sum_list (map inFlight ((workers s)[i := x])) + inFlight old =
           sum_list (map inFlight (workers s)) + inFlight x"
  using workerAt_Some [OF assms] sum_list_map_update [of i "workers s" inFlight x] by simp

lemma update_running:
  assumes "workerAt s i = Some old"
  shows "sum_list (map running ((workers s)[i := x])) + running old =
           sum_list (map running (workers s)) + running x"
  using workerAt_Some [OF assms] sum_list_map_update [of i "workers s" running x] by simp

lemma update_Returned:
  "Returned \<in> set (ws[i := x]) \<Longrightarrow> x = Returned \<or> Returned \<in> set ws"
  using set_update_subset_insert [of ws i x] by auto

lemma step_inv:
  assumes inv: "poolInv fl names s" and st: "step lib fl a s = Some s'"
  shows "poolInv fl names s'"
proof (cases a)
  case Send
  with st obtain g rest where "toSend s = g # rest" "\<not> jobClosed s"
    and s': "s' = s\<lparr>toSend := rest, jobQueue := jobQueue s @ [g]\<rparr>"
    by (auto split: list.splits if_splits)
  then have acc: "accounted s' = accounted s"
    by (simp add: accounted_def)
  from inv \<open>\<not> jobClosed s\<close> show ?thesis
    unfolding poolInv_def acc
    by (auto simp: s' simp del: sum_list_eq_0_iff)
next
  case CloseJobs
  with st have "toSend s = []" and s': "s' = s\<lparr>jobClosed := True\<rparr>"
    by (auto split: if_splits)
  then have acc: "accounted s' = accounted s"
    by (simp add: accounted_def)
  from inv \<open>toSend s = []\<close> show ?thesis
    unfolding poolInv_def acc
    by (auto simp: s' simp del: sum_list_eq_0_iff)
next
  case (Receive i)
  with st obtain g rest where w: "workerAt s i = Some Receiving" and q: "jobQueue s = g # rest"
    and s': "s' = s\<lparr>jobQueue := rest, workers := (workers s)[i := Processing g]\<rparr>"
    by (auto split: option.splits worker.splits list.splits)
  from q inv have noret: "Returned \<notin> set (workers s)"
    by (auto simp: poolInv_def)
  then have noret': "Returned \<notin> set ((workers s)[i := Processing g])"
    by (auto dest: update_Returned)
  have fl: "sum_list (map inFlight ((workers s)[i := Processing g])) =
      sum_list (map inFlight (workers s)) + {#g#}"
    using update_inFlight [OF w, of "Processing g"] by simp
  have acc: "accounted s' = accounted s"
    by (simp add: accounted_def s' q fl)
  have rn: "sum_list (map running ((workers s)[i := Processing g])) =
      sum_list (map running (workers s))"
    using update_running [OF w, of "Processing g"] by simp
  from inv noret' show ?thesis
    unfolding poolInv_def acc
    by (auto simp: s' rn simp del: sum_list_eq_0_iff)
next
  case (Process i)
  from Process st obtain g r w' where w: "workerAt s i = Some (Processing g)"
    and r: "GameName r = g"
    and s': "s' = s\<lparr>workers := (workers s)[i := Sending r], env := w'\<rparr>"
    by (auto split: option.splits worker.splits prod.splits)
       (metis fst_conv process_GameName)
  have ret: "Returned \<in> set ((workers s)[i := Sending r]) \<Longrightarrow> Returned \<in> set (workers s)"
    by (auto dest: update_Returned)
  have fl: "sum_list (map inFlight ((workers s)[i := Sending r])) =
      sum_list (map inFlight (workers s))"
    using update_inFlight [OF w, of "Sending r"] by (simp add: r)
  have acc: "accounted s' = accounted s"
    by (simp add: accounted_def s' fl)
  have rn: "sum_list (map running ((workers s)[i := Sending r])) =
      sum_list (map running (workers s))"
    using update_running [OF w, of "Sending r"] by simp
  from inv ret show ?thesis
    unfolding poolInv_def acc
    by (auto simp: s' rn simp del: sum_list_eq_0_iff)
next
  case (Push i)
  with st obtain r where w: "workerAt s i = Some (Sending r)" and unclosed: "\<not> resultClosed s"
    and s': "s' = s\<lparr>resultQueue := resultQueue s @ [r], workers := (workers s)[i := Receiving]\<rparr>"
    by (auto split: option.splits worker.splits if_splits)
  have ret: "Returned \<in> set ((workers s)[i := Receiving]) \<Longrightarrow> Returned \<in> set (workers s)"
    by (auto dest: update_Returned)
  from inv unclosed have col: "collecting s"
    by (auto simp: poolInv_def)
  have fl: "sum_list (map inFlight (workers s)) =
      sum_list (map inFlight ((workers s)[i := Receiving])) + {#GameName r#}"
    using update_inFlight [OF w, of Receiving] by simp
  have acc: "accounted s' = accounted s"
    by (simp add: accounted_def s' fl)
  have rn: "sum_list (map running ((workers s)[i := Receiving])) =
      sum_list (map running (workers s))"
    using update_running [OF w, of Receiving] by simp
  from inv ret col unclosed show ?thesis
    unfolding poolInv_def acc
    by (auto simp: s' rn simp del: sum_list_eq_0_iff)
next
  case (Return i)
  with st have w: "workerAt s i = Some Receiving" and q: "jobQueue s = []" "jobClosed s"
    and pos: "0 < waitGroup s"
    and s': "s' = s\<lparr>workers := (workers s)[i := Returned], waitGroup := waitGroup s - 1\<rparr>"
    by (auto split: option.splits worker.splits if_splits)
  from inv pos have unclosed: "\<not> resultClosed s" by (auto simp: poolInv_def)
  with inv have col: "collecting s" by (auto simp: poolInv_def)
  have fl: "sum_list (map inFlight ((workers s)[i := Returned])) =
      sum_list (map inFlight (workers s))"
    using update_inFlight [OF w, of Returned] by simp
  have acc: "accounted s' = accounted s"
    by (simp add: accounted_def s' fl)
  from inv have "waitGroup s = sum_list (map running (workers s))"
    by (simp add: poolInv_def)
  then have rn: "sum_list (map running ((workers s)[i := Returned])) = waitGroup s - 1"
    using update_running [OF w, of Returned] by simp
  from inv q col unclosed show ?thesis
    unfolding poolInv_def acc
    by (auto simp: s' rn simp del: sum_list_eq_0_iff)
next
  case CloseResults
  with st have "waitGroup s = 0" and s': "s' = s\<lparr>resultClosed := True\<rparr>"
    by (auto split: if_splits)
  then have acc: "accounted s' = accounted s"
    by (simp add: accounted_def)
  from inv \<open>waitGroup s = 0\<close> show ?thesis
    unfolding poolInv_def acc
    by (auto simp: s' simp del: sum_list_eq_0_iff)
next
  case Collect
  with st obtain r rest where q: "resultQueue s = r # rest" and col: "collecting s"
    and s': "s' = collect r (s\<lparr>resultQueue := rest\<rparr>)"
    by (auto split: list.splits if_splits)
  have acc: "accounted s' = accounted s"
    by (simp add: accounted_def s' q collect_def Let_def)
  from inv col show ?thesis
    unfolding poolInv_def acc
    by (auto simp: s' q collect_def Let_def simp del: sum_list_eq_0_iff)
next
  case Finish
  with st have f: "resultQueue s = []" "resultClosed s" and s': "s' = s\<lparr>collecting := False\<rparr>"
    by (auto split: if_splits)
  then have acc: "accounted s' = accounted s"
    by (simp add: accounted_def)
  from inv f show ?thesis
    unfolding poolInv_def acc
    by (auto simp: s' simp del: sum_list_eq_0_iff)
qed

lemma sum_list_replicate_empty: "sum_list (replicate n ({#} :: 'a multiset)) = {#}"
  by (induction n) simp_all

lemma start_inv: "poolInv fl names (startPool fl names w)"
  by (simp add: poolInv_def startPool_def accounted_def Let_def sum_list_replicate
        sum_list_replicate_empty)

lemma run_inv:
  "poolInv fl names s \<Longrightarrow> run lib fl schedule s = Some s' \<Longrightarrow> poolInv fl names s'"
proof (induction schedule arbitrary: s)
  case Nil
  then show ?case by simp
next
  case (Cons a schedule)
  then obtain s1 where 1: "step lib fl a s = Some s1" and 2: "run lib fl schedule s1 = Some s'"
    by (auto split: option.splits)
  from Cons.IH [OF step_inv [OF Cons.prems(1) 1] 2] show ?case .
qed

lemma running_0: "running x = 0 \<Longrightarrow> x = Returned"
  by (cases x) simp_all

lemma all_returned:
  assumes "sum_list (map running ws) = 0"
  shows "\<forall>x \<in> set ws. x = Returned"
  using assms by (auto dest: running_0)

lemma inFlight_all_returned: "\<forall>x \<in> set ws. x = Returned \<Longrightarrow> sum_list (map inFlight ws) = {#}"
  by (induction ws) simp_all

lemma accounted_size:
  "size (accounted s) =
     length (toSend s) + length (jobQueue s) + size (sum_list (map inFlight (workers s))) +
     length (resultQueue s) + length (collected s)"
  by (simp add: accounted_def)

lemma poolInvD:
  assumes "poolInv fl names s"
  shows "accounted s = mset names"
    and "capacity s = length names"
    and "length (workers s) = nat (actualWorkerCount (workerCountFlag fl) names)"
    and "waitGroup s = sum_list (map running (workers s))"
    and "jobClosed s \<longrightarrow> toSend s = []"
    and "Returned \<in> set (workers s) \<longrightarrow> jobClosed s \<and> jobQueue s = []"
    and "resultClosed s \<longrightarrow> waitGroup s = 0"
    and "\<not> collecting s \<longrightarrow> resultClosed s \<and> resultQueue s = []"
    and "completedCount s = int (length (collected s))"
    and "successCount s = int (length (filter Success (collected s)))"
    and "failedCount s = int (length (filter (\<lambda>r. \<not> Success r) (collected s)))"
    and "failedGameNames s = map GameName (filter (\<lambda>r. \<not> Success r) (collected s))"
  using assms unfolding poolInv_def by blast+

lemma inv_send_free:
  assumes inv: "poolInv fl names s" and more: "toSend s \<noteq> []"
  shows "\<not> jobClosed s \<and> length (jobQueue s) < capacity s"
proof -
  from more obtain g rest where t: "toSend s = g # rest" by (cases "toSend s") auto
  from poolInvD(1) [OF inv] have "size (accounted s) = length names" by simp
  with t poolInvD(2) [OF inv] have "length (jobQueue s) < capacity s"
    by (simp add: accounted_size)
  with poolInvD(5) [OF inv] more show ?thesis by blast
qed

lemma inv_push_free:
  assumes inv: "poolInv fl names s" and w: "workerAt s i = Some (Sending r)"
  shows "\<not> resultClosed s \<and> length (resultQueue s) < capacity s"
proof -
  from poolInvD(1) [OF inv] have sz: "size (accounted s) = length names" by simp
  note c = poolInvD(2) [OF inv] and wg = poolInvD(4) [OF inv] and cl = poolInvD(7) [OF inv]
  from workerAt_Some [OF w] have mem: "Sending r \<in> set (workers s)"
    by (metis nth_mem)
  have "\<not> resultClosed s"
  proof
    assume "resultClosed s"
    with cl wg have "sum_list (map running (workers s)) = 0" by simp
    from all_returned [OF this] mem show False by auto
  qed
  moreover have "sum_list (map inFlight (workers s)) =
      sum_list (map inFlight ((workers s)[i := Receiving])) + {#GameName r#}"
    using update_inFlight [OF w, of Receiving] by simp
  then have "0 < size (sum_list (map inFlight (workers s)))" by simp
  with sz c have "length (resultQueue s) < capacity s"
    by (simp add: accounted_size)
  ultimately show ?thesis by simp
qed

lemma inv_return_free:
  assumes inv: "poolInv fl names s" and w: "workerAt s i = Some Receiving"
  shows "0 < waitGroup s"
proof -
  from inv have wg: "waitGroup s = sum_list (map running (workers s))"
    by (simp add: poolInv_def)
  have "sum_list (map running ((workers s)[i := Returned])) + 1 = sum_list (map running (workers s))"
    using update_running [OF w, of Returned] by simp
  with wg show ?thesis by simp
qed

lemma inv_progress:
  assumes inv: "poolInv fl names s" and col: "collecting s"
  shows "\<exists>a s'. step lib fl a s = Some s'"
proof (cases "resultQueue s")
  case (Cons r rest)
  with col have "step lib fl Collect s = Some (collect r (s\<lparr>resultQueue := rest\<rparr>))" by simp
  then show ?thesis by blast
next
  case Nil
  show ?thesis
  proof (cases "resultClosed s")
    case True
    with Nil col have "step lib fl Finish s = Some (s\<lparr>collecting := False\<rparr>)" by simp
    then show ?thesis by blast
  next
    case False
    show ?thesis
    proof (cases "waitGroup s = 0")
      case True
      with False have "step lib fl CloseResults s = Some (s\<lparr>resultClosed := True\<rparr>)" by simp
      then show ?thesis by blast
    next
      case wg: False
      from inv have "waitGroup s = sum_list (map running (workers s))"
        by (simp add: poolInv_def)
      with wg obtain x where "x \<in> set (workers s)" "running x \<noteq> 0"
        by auto
      then obtain i where i: "i < length (workers s)" and x: "workers s ! i = x"
        by (auto simp: in_set_conv_nth)
      then have at: "workerAt s i = Some x" by (simp add: workerAt_def)
      show ?thesis
      proof (cases x)
        case Returned
        with \<open>running x \<noteq> 0\<close> show ?thesis by simp
      next
        case (Processing g)
        with at have "\<exists>s'. step lib fl (Process i) s = Some s'"
          by (simp add: split_beta)
        then show ?thesis by blast
      next
        case (Sending r)
        with at inv_push_free [OF inv, of i r]
        have "\<exists>s'. step lib fl (Push i) s = Some s'" by simp
        then show ?thesis by blast
      next
        case Receiving
        show ?thesis
        proof (cases "jobQueue s")
          case (Cons g rest)
          with at Receiving have "\<exists>s'. step lib fl (Receive i) s = Some s'" by simp
          then show ?thesis by blast
        next
          case q: Nil
          show ?thesis
          proof (cases "jobClosed s")
            case True
            with at Receiving q inv_return_free [OF inv, of i]
            have "\<exists>s'. step lib fl (Return i) s = Some s'" by simp
            then show ?thesis by blast
          next
            case closed: False
            show ?thesis
            proof (cases "toSend s")
              case Nil
              with closed have "\<exists>s'. step lib fl CloseJobs s = Some s'" by simp
              then show ?thesis by blast
            next
              case (Cons g rest)
              with inv_send_free [OF inv] have "\<exists>s'. step lib fl Send s = Some s'" by simp
              then show ?thesis by blast
            qed
          qed
        qed
      qed
    qed
  qed
qed

lemma inv_final:
  assumes inv: "poolInv fl names s" and flag: "1 \<le> workerCountFlag fl"
    and ended: "\<not> collecting s"
  shows "mset (map GameName (collected s)) = mset names"
proof -
  from inv ended have acc: "accounted s = mset names"
    and wg: "sum_list (map running (workers s)) = 0" and rq: "resultQueue s = []"
    and len: "length (workers s) = nat (actualWorkerCount (workerCountFlag fl) names)"
    and jc: "jobClosed s \<longrightarrow> toSend s = []"
    and ret: "Returned \<in> set (workers s) \<longrightarrow> jobClosed s \<and> jobQueue s = []"
    by (auto simp: poolInv_def simp del: sum_list_eq_0_iff)
  from all_returned [OF wg] have allret: "\<forall>x \<in> set (workers s). x = Returned" .
  then have fl0: "sum_list (map inFlight (workers s)) = {#}"
    by (rule inFlight_all_returned)
  have "toSend s = [] \<and> jobQueue s = []"
  proof (cases "workers s")
    case (Cons x xs)
    with allret have "Returned \<in> set (workers s)" by simp
    with ret jc show ?thesis by simp
  next
    case Nil
    with len flag have "names = []"
      by (cases names) (simp_all add: actualWorkerCount_def Let_def split: if_splits)
    with acc show ?thesis by (simp add: accounted_def)
  qed
  with acc fl0 rq show ?thesis by (simp add: accounted_def)
qed

lemma start_remaining:
  "remaining (startPool fl names w) \<le> 6 * length names + 3"
proof -
  have "nat (actualWorkerCount (workerCountFlag fl) names) \<le> length names"
    by (auto simp: actualWorkerCount_def Let_def)
  then show ?thesis
    by (simp add: remaining_def startPool_def Let_def sum_list_replicate)
qed

text \<open>
  Claim C7, as amended. For every list of names, every configured worker count of at
  least 1 and every schedule of the goroutines: the schedule has at most \<open>6 N + 3\<close>
  steps; no send finds its channel closed or full, and no \<open>Done\<close> finds the counter
  at 0; as long as the loop over \<open>resultQueue\<close> runs, some goroutine can take a step;
  and when the loop has ended it has consumed exactly \<open>N\<close> results, one for each
  name submitted, and the success count and the failure count add up to \<open>N\<close>.
\<close>

theorem pool_collects_every_result:
  assumes flag: "1 \<le> workerCountFlag fl"
    and run: "run lib fl schedule (startPool fl gameNames w) = Some s"
  shows "length schedule \<le> 6 * length gameNames + 3 \<and>
         (toSend s \<noteq> [] \<longrightarrow> \<not> jobClosed s \<and> length (jobQueue s) < capacity s) \<and>
         (\<forall>i r. workerAt s i = Some (Sending r) \<longrightarrow>
            \<not> resultClosed s \<and> length (resultQueue s) < capacity s) \<and>
         (\<forall>i. workerAt s i = Some Receiving \<longrightarrow> 0 < waitGroup s) \<and>
         (collecting s \<longrightarrow> (\<exists>a s'. step lib fl a s = Some s')) \<and>
         (\<not> collecting s \<longrightarrow>
            completedCount s = int (length gameNames) \<and>
            successCount s + failedCount s = int (length gameNames) \<and>
            mset (map GameName (collected s)) = mset gameNames)"
proof -
  have inv: "poolInv fl gameNames s"
    using start_inv run by (rule run_inv)
  have bound: "length schedule \<le> 6 * length gameNames + 3"
    using run_remaining [OF run] start_remaining [of fl gameNames w] by simp
  have final: "completedCount s = int (length gameNames) \<and>
      successCount s + failedCount s = int (length gameNames) \<and>
      mset (map GameName (collected s)) = mset gameNames" if "\<not> collecting s"
  proof -
    from inv_final [OF inv flag that] have m: "mset (map GameName (collected s)) = mset gameNames" .
    then have "size (mset (map GameName (collected s))) = size (mset gameNames)" by simp
    then have l: "length (collected s) = length gameNames" by simp
    from inv have "completedCount s = int (length (collected s))"
      and "successCount s = int (length (filter Success (collected s)))"
      and "failedCount s = int (length (filter (\<lambda>r. \<not> Success r) (collected s)))"
      by (simp_all add: poolInv_def)
    moreover have "length (filter Success (collected s)) +
        length (filter (\<lambda>r. \<not> Success r) (collected s)) = length (collected s)"
      by (rule sum_length_filter_compl)
    ultimately show ?thesis using l m by simp
  qed
  from bound final inv_send_free [OF inv] inv_push_free [OF inv] inv_return_free [OF inv]
    inv_progress [OF inv, of lib]
  show ?thesis by blast
qed

theorem pool_collects_every_result_witness:
  "\<exists>s. run exampleLib exampleFlags exampleSchedule
          (startPool exampleFlags [''Portal''] exampleWorld) = Some s \<and>
       \<not> collecting s \<and> completedCount s = 1 \<and> successCount s + failedCount s = 1 \<and>
       mset (map GameName (collected s)) = {#''Portal''#}"
proof -
  have "\<exists>s. run exampleLib exampleFlags exampleSchedule
          (startPool exampleFlags [''Portal''] exampleWorld) = Some s \<and> \<not> collecting s"
    by (simp add: exampleSchedule_def startPool_def exampleFlags_def actualWorkerCount_def
          workerAt_def split_beta collect_def Let_def)
  then obtain s where r: "run exampleLib exampleFlags exampleSchedule
          (startPool exampleFlags [''Portal''] exampleWorld) = Some s" and e: "\<not> collecting s"
    by blast
  have f: "1 \<le> workerCountFlag exampleFlags" by (simp add: exampleFlags_def)
  from pool_collects_every_result [OF f r] e r show ?thesis by auto
qed

text \<open>
  Claim C7 as stated fails: with \<open>--workers 0\<close> no worker is started, \<open>Wait\<close>
  returns at once, and the loop ends with no result consumed although one name was
  submitted.
\<close>

theorem zero_workers_counterexample:
  "map_option tally
     (run exampleLib (exampleFlags\<lparr>workerCountFlag := 0\<rparr>) [CloseResults, Finish]
        (startPool (exampleFlags\<lparr>workerCountFlag := 0\<rparr>) [''Portal''] exampleWorld)) =
   Some (False, 0, 0, 0)"
  by (simp add: startPool_def exampleFlags_def actualWorkerCount_def tally_def)

end
